theory Spec2Isabelle
  imports Complex_Main "HOL-Library.Word"
begin

unbundle bit_operations_syntax

section \<open>Data model of pmbus\_peek.c\<close>

type_synonym u8 = "8 word"
type_synonym u16 = "16 word"

text \<open>
  \<^verbatim>\<open>enum pmbus_cmd_type\<close> and \<^verbatim>\<open>enum pmbus_unit_type\<close>. Both enums start at 1; a
  descriptor that leaves the field out holds 0, written \<open>NO_TYPE\<close> and \<open>NO_UNITS\<close> here.
\<close>

datatype pmbus_cmd_type =
    NO_TYPE | RW1 | RW2 | RWB | RWB14 | RWP_QUERY | RWP_COEFF | RWB_APP_PROFILE
  | W0 | W1 | R1 | R2

datatype pmbus_unit_type =
    NO_UNITS | VOLTS | AMPERES | MILLISECONDS | DEGREES_C | WATTS | BITS | STRING

text \<open>
  \<^verbatim>\<open>struct pmbus_coefficients\<close>: \<open>valid\<close> is a \<^verbatim>\<open>u8\<close> used as a flag, \<open>R\<close> is an
  \<^verbatim>\<open>s8\<close>, \<open>m\<close> and \<open>b\<close> are \<^verbatim>\<open>s16\<close>; the signed fields are words read with \<open>sint\<close>.
\<close>

record pmbus_coefficients =
  valid :: bool
  R :: "8 word"
  m :: "16 word"
  b :: "16 word"

text \<open>
  \<^verbatim>\<open>struct pmbus_cmd_desc\<close>. \<open>tag\<close> is a \<^verbatim>\<open>const char *\<close>, \<open>None\<close> for the null pointer
  of the terminating entry. The field \<^verbatim>\<open>query\<close> is called \<open>query_byte\<close>, since the
  function \<^verbatim>\<open>query\<close> keeps the name. The array \<^verbatim>\<open>c[2]\<close> is indexed by a flag:
  \<open>c d False\<close> is \<^verbatim>\<open>c[0]\<close> (write), \<open>c d True\<close> is \<^verbatim>\<open>c[1]\<close> (read).
\<close>

record pmbus_cmd_desc =
  tag :: "string option"
  cmd :: u16
  type :: pmbus_cmd_type
  units :: pmbus_unit_type
  flags :: u8
  query_byte :: u8
  c :: "bool \<Rightarrow> pmbus_coefficients"

definition PMB_CLEAR_FAULT :: u16 where "PMB_CLEAR_FAULT = 0x03"
definition PMB_CAPABILITY :: u16 where "PMB_CAPABILITY = 0x19"
definition PMB_QUERY :: u16 where "PMB_QUERY = 0x1a"
definition PMB_VOUT_MODE :: u16 where "PMB_VOUT_MODE = 0x20"
definition PMB_COEFFICIENTS :: u16 where "PMB_COEFFICIENTS = 0x30"

definition FLG_SHOW_P1 :: u8 where "FLG_SHOW_P1 = push_bit 0 1"
definition FLG_STATUS :: u8 where "FLG_STATUS = push_bit 1 1"
definition FLG_FORMAT_VOUT :: u8 where "FLG_FORMAT_VOUT = push_bit 2 1"

definition is_pmb_8bit :: "u16 \<Rightarrow> bool" where
  "is_pmb_8bit cmd' \<longleftrightarrow> cmd' AND 0xff00 = 0 \<and> cmd' AND 0xfe \<noteq> 0xfe"

definition is_pmb_extended :: "u16 \<Rightarrow> bool" where
  "is_pmb_extended cmd' \<longleftrightarrow> cmd' AND 0xfe00 = 0xfe00"

section \<open>Value decoders of \<^verbatim>\<open>pmbus_dev_show_values\<close>\<close>

text \<open>
  The decoders compute in \<^verbatim>\<open>double\<close>; \<open>value\<close> is the \<^verbatim>\<open>int\<close> returned by
  \<^verbatim>\<open>pmbus_read_word_data\<close>, between 0 and 65535.
\<close>

subsection \<open>The type \<^verbatim>\<open>double\<close>\<close>

text \<open>
  A \<^verbatim>\<open>double\<close> is an IEEE 754 binary64 number, and every operation on it rounds its
  exact result to the nearest such number, ties to the even significand, with no
  wider intermediate format (\<^verbatim>\<open>FLT_EVAL_METHOD\<close> 0, as on x86-64 and AArch64). A finite
  \<^verbatim>\<open>double\<close> is the real number it denotes. The two zeros of the format are one
  value here: they compare equal in C, and the only divisors of the decoders are
  \<open>10.0\<close> and converted integers, whose zero is the positive one.
\<close>

datatype double = Finite real | PlusInf | MinusInf | NaN

text \<open>The binary exponent \<open>\<lfloor>log\<^sub>2 \<bar>x\<bar>\<rfloor>\<close> of \<open>x \<noteq> 0\<close>, by repeated halving or doubling.\<close>

function expo_up :: "real \<Rightarrow> int" where
  "expo_up x = (if x < 2 then 0 else expo_up (x / 2) + 1)"
  by pat_completeness auto
termination
proof (relation "measure (\<lambda>x. nat \<lfloor>x\<rfloor>)")
  fix x :: real
  assume "\<not> x < 2"
  then have "2 \<le> \<lfloor>x\<rfloor>"
    by (simp add: le_floor_iff)
  then have "\<lfloor>x\<rfloor> div 2 < \<lfloor>x\<rfloor>" "0 < \<lfloor>x\<rfloor>"
    by linarith+
  moreover have "\<lfloor>x / 2\<rfloor> = \<lfloor>x\<rfloor> div 2"
    using floor_divide_real_eq_div [of 2 x] by simp
  ultimately show "(x / 2, x) \<in> measure (\<lambda>x. nat \<lfloor>x\<rfloor>)"
    by (simp del: zero_less_floor)
qed simp

declare expo_up.simps [simp del]

function expo_down :: "real \<Rightarrow> int" where
  "expo_down x = (if 0 < x \<and> x < 1 then expo_down (2 * x) - 1 else 0)"
  by pat_completeness auto
termination
proof (relation "measure (\<lambda>x. nat \<lfloor>1 / x\<rfloor>)")
  fix x :: real
  assume "0 < x \<and> x < 1"
  then have "1 \<le> \<lfloor>1 / x\<rfloor>"
    by (simp add: le_floor_iff)
  then have "\<lfloor>1 / x\<rfloor> div 2 < \<lfloor>1 / x\<rfloor>" "0 < \<lfloor>1 / x\<rfloor>"
    by linarith+
  moreover have "\<lfloor>1 / (2 * x)\<rfloor> = \<lfloor>1 / x\<rfloor> div 2"
    using floor_divide_real_eq_div [of 2 "1 / x"] by (simp add: field_simps)
  ultimately show "(2 * x, x) \<in> measure (\<lambda>x. nat \<lfloor>1 / x\<rfloor>)"
    by (simp del: zero_less_floor)
qed simp

declare expo_down.simps [simp del]

definition expo :: "real \<Rightarrow> int" where
  "expo x = (if 1 \<le> \<bar>x\<bar> then expo_up \<bar>x\<bar> else expo_down \<bar>x\<bar>)"

text \<open>The nearest integer, the even one of the two when \<open>y\<close> lies half way.\<close>

definition round_even :: "real \<Rightarrow> int" where
  "round_even y =
     (let f = \<lfloor>y\<rfloor>; d = y - of_int f
      in if d < 1 / 2 then f else if 1 / 2 < d then f + 1 else if even f then f else f + 1)"

text \<open>
  Rounding to binary64. The significand has 53 bits, so the unit in the last place of
  a number with binary exponent \<open>e\<close> is \<open>2^(e - 52)\<close>; below the least normal exponent
  \<open>-1022\<close> the unit stays \<open>2^-1074\<close>; a rounded magnitude of \<open>2^1024\<close> or more is an
  infinity.
\<close>

definition double_round :: "real \<Rightarrow> double" where
  "double_round x =
     (let e = max (expo x) (- 1022);
          ulp = 2 powi (e - 52);
          y = of_int (round_even (x / ulp)) * ulp
      in if 2 powi 1024 \<le> \<bar>y\<bar> then (if 0 < x then PlusInf else MinusInf) else Finite y)"

text \<open>Multiplication, division and subtraction of IEEE 754.\<close>

definition inf_of :: "bool \<Rightarrow> double" where
  "inf_of neg = (if neg then MinusInf else PlusInf)"

fun double_mul :: "double \<Rightarrow> double \<Rightarrow> double" where
  "double_mul (Finite x) (Finite y) = double_round (x * y)"
| "double_mul NaN e = NaN"
| "double_mul d NaN = NaN"
| "double_mul (Finite x) e = (if x = 0 then NaN else inf_of ((x < 0) \<noteq> (e = MinusInf)))"
| "double_mul d (Finite y) = (if y = 0 then NaN else inf_of ((d = MinusInf) \<noteq> (y < 0)))"
| "double_mul d e = inf_of ((d = MinusInf) \<noteq> (e = MinusInf))"

fun double_div :: "double \<Rightarrow> double \<Rightarrow> double" where
  "double_div (Finite x) (Finite y) =
     (if y = 0 then (if x = 0 then NaN else inf_of (x < 0)) else double_round (x / y))"
| "double_div NaN e = NaN"
| "double_div d NaN = NaN"
| "double_div (Finite x) e = Finite 0"
| "double_div d (Finite y) = inf_of ((d = MinusInf) \<noteq> (y < 0))"
| "double_div d e = NaN"

fun double_sub :: "double \<Rightarrow> double \<Rightarrow> double" where
  "double_sub (Finite x) (Finite y) = double_round (x - y)"
| "double_sub NaN e = NaN"
| "double_sub d NaN = NaN"
| "double_sub (Finite x) e = inf_of (e = PlusInf)"
| "double_sub d (Finite y) = d"
| "double_sub d e = (if d = e then NaN else d)"

subsection \<open>LINEAR (format class 0), lines 1641--1653\<close>

text \<open>
  In \<^verbatim>\<open>0x0f + 1 - (value >> 11) & 0x0f\<close> the subtraction binds tighter than \<^verbatim>\<open>&\<close>.
  The decoder scales an integer below \<open>2^10\<close> by a power of two between \<open>2^-15\<close> and
  \<open>2^15\<close>. A \<^verbatim>\<open>double\<close> does that without rounding, so the result is given as the real
  number it is.
\<close>

definition linear_decode :: "int \<Rightarrow> real" where
  "linear_decode value =
     (let d = of_int (value AND 0x03ff);
          d = (if value AND 0x0400 \<noteq> 0 then - d else d)
      in if value AND 0x8000 \<noteq> 0 then
           d / of_int (push_bit (nat ((0x0f + 1 - drop_bit 11 value) AND 0x0f)) (1::int))
         else if value AND 0x7100 \<noteq> 0 then
           d * of_int (push_bit (nat (drop_bit 11 value)) (1::int))
         else d)"

text \<open>
  LINEAR11 as the specification words it: an 11-bit two's-complement mantissa in bits
  0--10, a 5-bit two's-complement exponent in bits 11--15, and the value
  mantissa times two to the exponent.
\<close>

definition linear11_mantissa :: "u16 \<Rightarrow> int" where
  "linear11_mantissa raw = sint (ucast raw :: 11 word)"

definition linear11_exponent :: "u16 \<Rightarrow> int" where
  "linear11_exponent raw = sint (ucast (drop_bit 11 raw) :: 5 word)"

definition linear11_spec :: "u16 \<Rightarrow> real" where
  "linear11_spec raw =
     (let mant = linear11_mantissa raw; e = linear11_exponent raw
      in if 0 \<le> e then of_int mant * 2 ^ nat e else of_int mant / 2 ^ nat (- e))"

subsection \<open>DIRECT (format class 3), lines 1661--1688\<close>

text \<open>
  The two \<^verbatim>\<open>do ... while\<close> loops: the body runs before the test. A multiplication or
  division by \<open>10.0\<close> rounds.
\<close>

function direct_scale_up :: "int \<Rightarrow> double \<Rightarrow> double" where
  "direct_scale_up r d =
     (let d = double_mul d (Finite 10); r = r + 1 in if r < 0 then direct_scale_up r d else d)"
  by pat_completeness auto
termination
  by (relation "measure (\<lambda>(r, d). nat (- r))") auto

declare direct_scale_up.simps [simp del]

function direct_scale_down :: "int \<Rightarrow> double \<Rightarrow> double" where
  "direct_scale_down r d =
     (let d = double_div d (Finite 10); r = r - 1 in if 0 < r then direct_scale_down r d else d)"
  by pat_completeness auto
termination
  by (relation "measure (\<lambda>(r, d). nat r)") auto

declare direct_scale_down.simps [simp del]

text \<open>
  DIRECT as the specification words it: \<open>(signed16(raw) / 10^R - b) / m\<close>, a real
  number.
\<close>

definition direct_spec :: "int \<Rightarrow> int \<Rightarrow> int \<Rightarrow> int \<Rightarrow> real" where
  "direct_spec raw r b0 m0 = (of_int raw / 10 powi r - of_int b0) / of_int m0"

text \<open>A descriptor whose read-direction coefficients are \<open>R = r\<close>, \<open>m = 1\<close>, \<open>b = 0\<close>.\<close>

definition direct_example :: "8 word \<Rightarrow> pmbus_cmd_desc" where
  "direct_example r =
     \<lparr>tag = Some ''read_iout'', cmd = 0x8c, type = R2, units = AMPERES, flags = 0,
      query_byte = 0xac,
      c = (\<lambda>rd. if rd then \<lparr>valid = True, R = r, m = 1, b = 0\<rparr>
                else \<lparr>valid = False, R = 0, m = 0, b = 0\<rparr>)\<rparr>"

text \<open>
  The decoder. The conversions of \<^verbatim>\<open>(s16) value\<close> and of the 16-bit coefficients to
  \<^verbatim>\<open>double\<close> are exact.
\<close>

definition direct_decode :: "pmbus_cmd_desc \<Rightarrow> int \<Rightarrow> double" where
  "direct_decode opd value =
     (let d = Finite (of_int (sint (word_of_int value :: 16 word)));
          r = sint (R (c opd True));
          d = (if r < 0 then direct_scale_up r d
               else if 0 < r then direct_scale_down r d
               else d);
          d = double_sub d (Finite (of_int (sint (b (c opd True)))))
      in double_div d (Finite (of_int (sint (m (c opd True))))))"

section \<open>The bus adapter and the session state\<close>

text \<open>
  Every \<^verbatim>\<open>ioctl\<close> on the adapter is a request. The adapter and the device behind it
  are the environment: a function from the requests issued so far (the last one being
  the current request) to a reply. A reply is a failure with its \<^verbatim>\<open>errno\<close>, or the bytes
  the call left in the caller's data area (byte \<open>k\<close> of \<^verbatim>\<open>data.block\<close> or of the
  message buffer; a word is bytes 0 and 1, low byte first). After a failed call
  \<^verbatim>\<open>errno\<close> is positive, so the \<^verbatim>\<open>-errno\<close> that the source returns is negative.
\<close>

datatype bus_op =
    I2C_PEC bool
  | SMBUS_QUICK
  | SMBUS_READ_BYTE_DATA u8
  | SMBUS_READ_WORD_DATA u8
  | SMBUS_READ_BLOCK_DATA u8
  | SMBUS_PROC_CALL u8 u16
  | SMBUS_BLOCK_PROC_CALL u8 "u8 list"
  | SMBUS_WRITE_BYTE u8
  | SMBUS_WRITE_BYTE_DATA u8 u8
  | I2C_RDWR "u8 list" nat

datatype reply = Failed nat | Done "nat \<Rightarrow> u8"

type_synonym bus = "bus_op list \<Rightarrow> reply"

text \<open>
  A \<^verbatim>\<open>struct pmbus_cmd_desc *\<close> as stored in \<^verbatim>\<open>pmdev->op[]\<close>: the null pointer (never
  probed), the address of the static \<^verbatim>\<open>unsupported\<close> descriptor, or the address of
  entry \<open>i\<close> of the table \<^verbatim>\<open>pmbus_ops\<close>.
\<close>

datatype desc_ptr = Null | Unsupported | PmbusOps nat

text \<open>
  \<^verbatim>\<open>struct pmbus_dev\<close>, together with the two pieces of global state the functions
  work on: \<open>ops\<close> is the table \<^verbatim>\<open>pmbus_ops\<close>, which \<^verbatim>\<open>query\<close> and \<^verbatim>\<open>coefficients\<close>
  modify in place, and \<open>trace\<close> is the list of requests issued on the bus so far.
  \<open>no_query\<close> and \<open>use_pec\<close> are \<^verbatim>\<open>u8\<close> fields used as flags. \<open>op\<close> has exactly 256
  entries, so it is indexed by a byte.
\<close>

record pmbus_dev =
  funcs :: "32 word"
  addr :: u8
  revision :: u8
  capability :: u8
  no_query :: bool
  use_pec :: bool
  op :: "u8 \<Rightarrow> desc_ptr"
  ops :: "pmbus_cmd_desc list"
  trace :: "bus_op list"

text \<open>Constants of \<^verbatim>\<open><linux/i2c.h>\<close> and \<^verbatim>\<open><errno.h>\<close> that the source uses.\<close>

definition I2C_FUNC_I2C :: "32 word" where "I2C_FUNC_I2C = 0x00000001"
definition I2C_FUNC_SMBUS_BLOCK_PROC_CALL :: "32 word" where
  "I2C_FUNC_SMBUS_BLOCK_PROC_CALL = 0x00008000"
definition I2C_FUNC_SMBUS_READ_BLOCK_DATA :: "32 word" where
  "I2C_FUNC_SMBUS_READ_BLOCK_DATA = 0x01000000"
definition I2C_SMBUS_BLOCK_MAX :: nat where "I2C_SMBUS_BLOCK_MAX = 32"

definition E2BIG :: nat where "E2BIG = 7"
definition EINVAL :: nat where "EINVAL = 22"
definition EFBIG :: nat where "EFBIG = 27"
definition ENOSYS :: nat where "ENOSYS = 38"
definition EOPNOTSUPP :: nat where "EOPNOTSUPP = 95"

text \<open>
  Undefined behaviour of the C program that the model makes explicit: a read through
  a null descriptor pointer, and an index outside \<^verbatim>\<open>pmdev->op[256]\<close>.
\<close>

datatype fault = NullDeref | OutOfBounds

definition ioctl :: "bus \<Rightarrow> pmbus_dev \<Rightarrow> bus_op \<Rightarrow> reply \<times> pmbus_dev" where
  "ioctl bus pmdev req =
     (bus (trace pmdev @ [req]), pmdev\<lparr>trace := trace pmdev @ [req]\<rparr>)"

text \<open>
  The functions that return "a value, or negative errno" return a sum: \<open>Inl e\<close> is the
  return value \<open>- e\<close>, \<open>Inr v\<close> the value. \<open>c_int\<close> gives the \<^verbatim>\<open>int\<close> the C function returns.
\<close>

definition c_int :: "nat + 'a::len word \<Rightarrow> int" where
  "c_int r = (case r of Inl e \<Rightarrow> - int e | Inr v \<Rightarrow> uint v)"

text \<open>The 16-bit word a call left in the data area.\<close>

definition reply_word :: "(nat \<Rightarrow> u8) \<Rightarrow> u16" where
  "reply_word d = push_bit 8 (ucast (d 1)) OR ucast (d 0)"

section \<open>Read operations\<close>

definition pmbus_read_byte_data :: "bus \<Rightarrow> pmbus_dev \<Rightarrow> u16 \<Rightarrow> (nat + u8) \<times> pmbus_dev" where
  "pmbus_read_byte_data bus pmdev cmd' =
     (if is_pmb_extended cmd' then (Inl ENOSYS, pmdev)
      else if \<not> is_pmb_8bit cmd' then (Inl EINVAL, pmdev)
      else (case ioctl bus pmdev (SMBUS_READ_BYTE_DATA (ucast cmd')) of
             (Failed e, pmdev) \<Rightarrow> (Inl e, pmdev)
           | (Done d, pmdev) \<Rightarrow> (Inr (d 0), pmdev)))"

definition pmbus_read_word_data :: "bus \<Rightarrow> pmbus_dev \<Rightarrow> u16 \<Rightarrow> (nat + u16) \<times> pmbus_dev" where
  "pmbus_read_word_data bus pmdev cmd' =
     (if is_pmb_extended cmd' then (Inl ENOSYS, pmdev)
      else if \<not> is_pmb_8bit cmd' then (Inl EINVAL, pmdev)
      else (case ioctl bus pmdev (SMBUS_READ_WORD_DATA (ucast cmd')) of
             (Failed e, pmdev) \<Rightarrow> (Inl e, pmdev)
           | (Done d, pmdev) \<Rightarrow> (Inr (reply_word d), pmdev)))"

text \<open>
  \<^verbatim>\<open>memcpy(dst, src, n)\<close> on buffers seen as functions from the offset to the byte.
\<close>

definition memcpy :: "(nat \<Rightarrow> u8) \<Rightarrow> (nat \<Rightarrow> u8) \<Rightarrow> nat \<Rightarrow> (nat \<Rightarrow> u8)" where
  "memcpy dst src n = (\<lambda>k. if k < n then src k else dst k)"

text \<open>
  The code after the label \<^verbatim>\<open>try_i2c\<close> of \<^verbatim>\<open>pmbus_read_block\<close>: \<open>len\<close> is the length
  byte read first, \<open>retval\<close> the error set before the jump. The two messages share
  \<^verbatim>\<open>buf\<close>, so the reply's byte 0 is the length byte the device sent.
\<close>

definition read_block_try_i2c ::
  "bus \<Rightarrow> pmbus_dev \<Rightarrow> u16 \<Rightarrow> nat \<Rightarrow> (nat \<Rightarrow> u8) \<Rightarrow> u8 \<Rightarrow> nat
     \<Rightarrow> (nat + nat) \<times> (nat \<Rightarrow> u8) \<times> pmbus_dev" where
  "read_block_try_i2c bus pmdev cmd' read_len read_buf len retval =
     (if funcs pmdev AND I2C_FUNC_I2C \<noteq> 0 then
        (case ioctl bus pmdev (I2C_RDWR [ucast (cmd' AND 0x0ff)] (unat len + 1)) of
          (Failed e, pmdev) \<Rightarrow> (Inl e, read_buf, pmdev)
        | (Done buf, pmdev) \<Rightarrow>
            if unat (buf 0) \<le> read_len then
              (Inr (unat (buf 0)), memcpy read_buf (\<lambda>k. buf (k + 1)) (unat (buf 0)), pmdev)
            else
              (Inl E2BIG, memcpy read_buf (\<lambda>k. buf (k + 1)) read_len, pmdev))
      else (Inl retval, read_buf, pmdev))"

text \<open>
  \<^verbatim>\<open>pmbus_read_block\<close>. \<open>read_buf\<close> is \<open>None\<close> for a null pointer. The result is the
  return value (\<open>Inr n\<close>: \<open>n\<close> bytes copied), the destination buffer and the state.
\<close>

definition pmbus_read_block ::
  "bus \<Rightarrow> pmbus_dev \<Rightarrow> u16 \<Rightarrow> nat \<Rightarrow> (nat \<Rightarrow> u8) option
     \<Rightarrow> (nat + nat) \<times> (nat \<Rightarrow> u8) option \<times> pmbus_dev" where
  "pmbus_read_block bus pmdev cmd' read_len read_buf =
     (case read_buf of
        None \<Rightarrow> (Inl EINVAL, read_buf, pmdev)
      | Some rb \<Rightarrow>
          if read_len = 0 then (Inl EINVAL, read_buf, pmdev)
          else if is_pmb_extended cmd' then (Inl ENOSYS, read_buf, pmdev)
          else if \<not> is_pmb_8bit cmd' then (Inl EINVAL, read_buf, pmdev)
          else
            let pmdev = (if use_pec pmdev then snd (ioctl bus pmdev (I2C_PEC False)) else pmdev)
            in (case pmbus_read_byte_data bus pmdev cmd' of
                 (Inl e, pmdev) \<Rightarrow> (Inl e, read_buf, pmdev)
               | (Inr len, pmdev) \<Rightarrow>
                   let pmdev =
                         (if use_pec pmdev then snd (ioctl bus pmdev (I2C_PEC True)) else pmdev);
                       (retval, rb, pmdev) =
                         (if I2C_SMBUS_BLOCK_MAX < unat len then
                            read_block_try_i2c bus pmdev cmd' read_len rb len EFBIG
                          else if funcs pmdev AND I2C_FUNC_SMBUS_READ_BLOCK_DATA = 0 then
                            read_block_try_i2c bus pmdev cmd' read_len rb len EOPNOTSUPP
                          else
                            (case ioctl bus pmdev (SMBUS_READ_BLOCK_DATA (ucast cmd')) of
                              (Failed e, pmdev) \<Rightarrow>
                                read_block_try_i2c bus pmdev cmd' read_len rb len e
                            | (Done block, pmdev) \<Rightarrow>
                                if unat (block 0) \<le> read_len then
                                  if 32 < unat (block 0) then
                                    read_block_try_i2c bus pmdev cmd' read_len rb len EFBIG
                                  else
                                    (Inr (unat (block 0)),
                                     memcpy rb (\<lambda>k. block (k + 1)) (unat (block 0)), pmdev)
                                else
                                  (Inl E2BIG, memcpy rb (\<lambda>k. block (k + 1)) read_len, pmdev)))
                   in (retval, Some rb, pmdev)))"

section \<open>Write operations\<close>

text \<open>The two write operations that \<^verbatim>\<open>main\<close> and \<^verbatim>\<open>pmbus_clear_fault\<close> use.\<close>

definition smbus_write_byte :: "bus \<Rightarrow> pmbus_dev \<Rightarrow> u8 \<Rightarrow> (nat + unit) \<times> pmbus_dev" where
  "smbus_write_byte bus pmdev byte =
     (case ioctl bus pmdev (SMBUS_WRITE_BYTE byte) of
        (Failed e, pmdev) \<Rightarrow> (Inl e, pmdev)
      | (Done d, pmdev) \<Rightarrow> (Inr (), pmdev))"

definition pmbus_write_byte_data ::
  "bus \<Rightarrow> pmbus_dev \<Rightarrow> u16 \<Rightarrow> u8 \<Rightarrow> (nat + unit) \<times> pmbus_dev" where
  "pmbus_write_byte_data bus pmdev cmd' byte =
     (if is_pmb_extended cmd' then (Inl ENOSYS, pmdev)
      else if \<not> is_pmb_8bit cmd' then (Inl EINVAL, pmdev)
      else (case ioctl bus pmdev (SMBUS_WRITE_BYTE_DATA (ucast cmd') byte) of
             (Failed e, pmdev) \<Rightarrow> (Inl e, pmdev)
           | (Done d, pmdev) \<Rightarrow> (Inr (), pmdev)))"

section \<open>The command table \<^verbatim>\<open>pmbus_ops\<close>\<close>

text \<open>
  An initialiser \<^verbatim>\<open>{ .cmd = k, .tag = t, .type = ty, .units = u, .flags = f }\<close>; every
  field it leaves out is zero. The table ends with the all-zero entry, whose \<open>tag\<close> is
  the null pointer.
\<close>

definition desc ::
  "string \<Rightarrow> u16 \<Rightarrow> pmbus_cmd_type \<Rightarrow> pmbus_unit_type \<Rightarrow> u8 \<Rightarrow> pmbus_cmd_desc" where
  "desc t k ty u f =
     \<lparr>tag = Some t, cmd = k, type = ty, units = u, flags = f, query_byte = 0,
      c = (\<lambda>_. \<lparr>valid = False, R = 0, m = 0, b = 0\<rparr>)\<rparr>"

definition pmbus_ops :: "pmbus_cmd_desc list" where
  "pmbus_ops = [
     desc ''page'' 0x00 RW1 NO_UNITS 0,
     desc ''operation'' 0x01 RW1 NO_UNITS 0,
     desc ''on_off_config'' 0x02 RW1 NO_UNITS 0,
     desc ''clear_fault'' 0x03 W0 NO_UNITS 0,
     desc ''phase'' 0x04 RW1 NO_UNITS 0,
     desc ''page_plus_write'' 0x05 RWB NO_UNITS 0,
     desc ''page_plus_read'' 0x05 RWB NO_UNITS 0,
     desc ''write_protect'' 0x10 RW1 NO_UNITS 0,
     desc ''store_default_all'' 0x11 W0 NO_UNITS 0,
     desc ''restore_default_all'' 0x12 W0 NO_UNITS 0,
     desc ''store_default_code'' 0x13 W1 NO_UNITS 0,
     desc ''restore_default_code'' 0x14 W1 NO_UNITS 0,
     desc ''store_user_all'' 0x15 W0 NO_UNITS 0,
     desc ''restore_user_all'' 0x16 W0 NO_UNITS 0,
     desc ''store_user_code'' 0x17 W1 NO_UNITS 0,
     desc ''restore_user_code'' 0x18 W1 NO_UNITS 0,
     desc ''capability'' 0x19 R1 NO_UNITS FLG_SHOW_P1,
     desc ''query'' 0x1a RWP_QUERY NO_UNITS 0,
     desc ''smbalert_mask'' 0x1b RWB NO_UNITS 0,
     desc ''vout_mode'' 0x20 RW1 NO_UNITS 0,
     desc ''vout_command'' 0x21 RW2 NO_UNITS 0,
     desc ''vout_trim'' 0x22 RW2 VOLTS 0,
     desc ''vout_cal_offset'' 0x23 RW2 VOLTS 0,
     desc ''vout_max'' 0x24 RW2 VOLTS FLG_FORMAT_VOUT,
     desc ''vout_margin_high'' 0x25 RW2 VOLTS FLG_FORMAT_VOUT,
     desc ''vout_margin_low'' 0x26 RW2 VOLTS FLG_FORMAT_VOUT,
     desc ''vout_transition_rate'' 0x27 RW2 NO_UNITS 0,
     desc ''vout_droop'' 0x28 RW2 NO_UNITS 0,
     desc ''vout_scale_loop'' 0x29 RW2 NO_UNITS 0,
     desc ''vout_scale_monitor'' 0x2a RW2 NO_UNITS 0,
     desc ''coefficients'' 0x30 RWP_COEFF NO_UNITS 0,
     desc ''pout_max'' 0x31 RW2 WATTS 0,
     desc ''max_duty'' 0x32 RW2 NO_UNITS 0,
     desc ''frequency_switch'' 0x33 RW2 NO_UNITS 0,
     desc ''vin_on'' 0x35 RW2 VOLTS 0,
     desc ''vin_off'' 0x36 RW2 VOLTS 0,
     desc ''interleave'' 0x37 RW2 NO_UNITS 0,
     desc ''iout_cal_gain'' 0x38 RW2 NO_UNITS 0,
     desc ''iout_cal_offset'' 0x39 RW2 AMPERES 0,
     desc ''fan_config_1_2'' 0x3a RW1 NO_UNITS 0,
     desc ''fan_command_1'' 0x3b RW2 NO_UNITS 0,
     desc ''fan_command_2'' 0x3c RW2 NO_UNITS 0,
     desc ''fan_config_3_4'' 0x3d RW1 NO_UNITS 0,
     desc ''fan_command_3'' 0x3e RW2 NO_UNITS 0,
     desc ''fan_command_4'' 0x3f RW2 NO_UNITS 0,
     desc ''vout_ov_fault_limit'' 0x40 RW2 VOLTS FLG_FORMAT_VOUT,
     desc ''vout_ov_fault_response'' 0x41 RW1 NO_UNITS 0,
     desc ''vout_ov_warn_limit'' 0x42 RW2 VOLTS FLG_FORMAT_VOUT,
     desc ''vout_uv_warn_limit'' 0x43 RW2 VOLTS FLG_FORMAT_VOUT,
     desc ''vout_uv_fault_limit'' 0x44 RW2 VOLTS FLG_FORMAT_VOUT,
     desc ''vout_uv_fault_response'' 0x45 RW1 NO_UNITS 0,
     desc ''iout_oc_fault_limit'' 0x46 RW2 AMPERES 0,
     desc ''iout_oc_fault_response'' 0x47 RW1 NO_UNITS 0,
     desc ''iout_oc_lv_fault_limit'' 0x48 RW2 VOLTS FLG_FORMAT_VOUT,
     desc ''iout_oc_lv_fault_response'' 0x49 RW1 NO_UNITS 0,
     desc ''iout_oc_warn_limit'' 0x4a RW2 AMPERES 0,
     desc ''iout_uc_fault_limit'' 0x4b RW2 AMPERES 0,
     desc ''iout_uc_fault_response'' 0x4c RW1 NO_UNITS 0,
     desc ''ot_fault_limit'' 0x4f RW2 DEGREES_C 0,
     desc ''ot_fault_response'' 0x50 RW1 NO_UNITS 0,
     desc ''ot_warn_limit'' 0x51 RW2 DEGREES_C 0,
     desc ''ut_warn_limit'' 0x52 RW2 DEGREES_C 0,
     desc ''ut_fault_limit'' 0x53 RW2 DEGREES_C 0,
     desc ''ut_fault_response'' 0x54 RW1 NO_UNITS 0,
     desc ''vin_ov_fault_limit'' 0x55 RW2 VOLTS 0,
     desc ''vin_ov_fault_response'' 0x56 RW1 NO_UNITS 0,
     desc ''vin_ov_warn_limit'' 0x57 RW2 VOLTS 0,
     desc ''vin_uv_warn_limit'' 0x58 RW2 VOLTS 0,
     desc ''vin_uv_fault_limit'' 0x59 RW2 VOLTS 0,
     desc ''vin_uv_fault_response'' 0x5a RW1 NO_UNITS 0,
     desc ''iin_oc_fault_limit'' 0x5b RW2 AMPERES 0,
     desc ''iin_oc_fault_response'' 0x5c RW1 NO_UNITS 0,
     desc ''iin_oc_warn_limit'' 0x5d RW2 AMPERES 0,
     desc ''power_good_on'' 0x5e RW2 VOLTS FLG_FORMAT_VOUT,
     desc ''power_good_off'' 0x5f RW2 VOLTS FLG_FORMAT_VOUT,
     desc ''ton_delay'' 0x60 RW2 MILLISECONDS 0,
     desc ''ton_rise'' 0x61 RW2 MILLISECONDS 0,
     desc ''ton_max_fault_limit'' 0x62 RW2 MILLISECONDS 0,
     desc ''ton_max_fault_response'' 0x63 RW1 NO_UNITS 0,
     desc ''toff_delay'' 0x64 RW2 MILLISECONDS 0,
     desc ''toff_fall'' 0x65 RW2 MILLISECONDS 0,
     desc ''toff_max_warn_limit'' 0x66 RW2 MILLISECONDS 0,
     desc ''pout_op_fault_limit'' 0x68 RW2 WATTS 0,
     desc ''pout_op_fault_response'' 0x69 RW1 NO_UNITS 0,
     desc ''pout_op_warn_limit'' 0x6a RW2 WATTS 0,
     desc ''pin_op_warn_limit'' 0x6b RW2 WATTS 0,
     desc ''status_byte'' 0x78 R1 NO_UNITS FLG_STATUS,
     desc ''status_word'' 0x79 R2 BITS FLG_STATUS,
     desc ''status_vout'' 0x7a R1 NO_UNITS FLG_STATUS,
     desc ''status_iout'' 0x7b R1 NO_UNITS FLG_STATUS,
     desc ''status_input'' 0x7c R1 NO_UNITS FLG_STATUS,
     desc ''status_temperature'' 0x7d R1 NO_UNITS FLG_STATUS,
     desc ''status_cml'' 0x7e R1 NO_UNITS FLG_STATUS,
     desc ''status_other'' 0x7f R1 NO_UNITS FLG_STATUS,
     desc ''status_mfr_specific'' 0x80 R1 NO_UNITS FLG_STATUS,
     desc ''status_fans_1_2'' 0x81 R1 NO_UNITS FLG_STATUS,
     desc ''status_fans_3_4'' 0x82 R1 NO_UNITS FLG_STATUS,
     desc ''read_vin'' 0x88 R2 VOLTS 0,
     desc ''read_iin'' 0x89 R2 AMPERES 0,
     desc ''read_vcap'' 0x8a R2 VOLTS 0,
     desc ''read_vout'' 0x8b R2 VOLTS FLG_FORMAT_VOUT,
     desc ''read_iout'' 0x8c R2 AMPERES 0,
     desc ''read_temperature_1'' 0x8d R2 DEGREES_C 0,
     desc ''read_temperature_2'' 0x8e R2 DEGREES_C 0,
     desc ''read_temperature_3'' 0x8f R2 DEGREES_C 0,
     desc ''read_fan_speed_1'' 0x90 R2 NO_UNITS 0,
     desc ''read_fan_speed_2'' 0x91 R2 NO_UNITS 0,
     desc ''read_fan_speed_3'' 0x92 R2 NO_UNITS 0,
     desc ''read_fan_speed_4'' 0x93 R2 NO_UNITS 0,
     desc ''read_duty_cycle'' 0x94 R2 NO_UNITS 0,
     desc ''read_frequency'' 0x95 R2 NO_UNITS 0,
     desc ''read_pout'' 0x96 R2 WATTS 0,
     desc ''read_pin'' 0x97 R2 WATTS 0,
     desc ''pmbus_revision'' 0x98 R1 NO_UNITS FLG_SHOW_P1,
     desc ''mfr_id'' 0x99 RWB STRING FLG_SHOW_P1,
     desc ''mfr_model'' 0x9a RWB STRING FLG_SHOW_P1,
     desc ''mfr_revision'' 0x9b RWB STRING FLG_SHOW_P1,
     desc ''mfr_location'' 0x9c RWB STRING FLG_SHOW_P1,
     desc ''mfr_date'' 0x9d RWB STRING FLG_SHOW_P1,
     desc ''mfr_serial'' 0x9e RWB STRING FLG_SHOW_P1,
     desc ''app_profile_support'' 0x9f RWB_APP_PROFILE NO_UNITS FLG_SHOW_P1,
     desc ''mfr_vin_min'' 0xa0 R2 VOLTS 0,
     desc ''mfr_vin_max'' 0xa1 R2 VOLTS 0,
     desc ''mfr_iin_max'' 0xa2 R2 AMPERES 0,
     desc ''mfr_pin_max'' 0xa3 R2 WATTS 0,
     desc ''mfr_vout_min'' 0xa4 R2 VOLTS 0,
     desc ''mfr_vout_max'' 0xa5 R2 VOLTS 0,
     desc ''mfr_iout_max'' 0xa5 R2 AMPERES 0,
     desc ''mfr_pout_max'' 0xa7 R2 WATTS 0,
     desc ''mfr_tambient_max'' 0xa8 R2 DEGREES_C 0,
     desc ''mfr_tambient_min'' 0xa9 R2 DEGREES_C 0,
     desc ''mfr_efficiency_ll'' 0xaa RWB14 NO_UNITS 0,
     desc ''mfr_efficiency_hl'' 0xab RWB14 NO_UNITS 0,
     desc ''mfr_pin_accuracy'' 0xac R1 NO_UNITS 0,
     desc ''ic_device_id'' 0xad RWB STRING FLG_SHOW_P1,
     desc ''ic_device_rev'' 0xae RWB STRING FLG_SHOW_P1,
     desc ''user_data_00'' 0xb0 RWB NO_UNITS 0,
     desc ''user_data_01'' 0xb1 RWB NO_UNITS 0,
     desc ''user_data_02'' 0xb2 RWB NO_UNITS 0,
     desc ''user_data_03'' 0xb3 RWB NO_UNITS 0,
     desc ''user_data_04'' 0xb4 RWB NO_UNITS 0,
     desc ''user_data_05'' 0xb5 RWB NO_UNITS 0,
     desc ''user_data_06'' 0xb6 RWB NO_UNITS 0,
     desc ''user_data_07'' 0xb7 RWB NO_UNITS 0,
     desc ''user_data_08'' 0xb8 RWB NO_UNITS 0,
     desc ''user_data_09'' 0xb9 RWB NO_UNITS 0,
     desc ''user_data_10'' 0xba RWB NO_UNITS 0,
     desc ''user_data_11'' 0xbb RWB NO_UNITS 0,
     desc ''user_data_12'' 0xbc RWB NO_UNITS 0,
     desc ''user_data_13'' 0xbd RWB NO_UNITS 0,
     desc ''user_data_14'' 0xbe RWB NO_UNITS 0,
     desc ''user_data_15'' 0xbf RWB NO_UNITS 0,
     desc ''mfr_max_temp_1'' 0xc0 RW2 DEGREES_C 0,
     desc ''mfr_max_temp_1'' 0xc1 RW2 DEGREES_C 0,
     desc ''mfr_max_temp_1'' 0xc2 RW2 DEGREES_C 0,
     desc ''mfr_specific_00'' 0xd0 NO_TYPE NO_UNITS 0,
     desc ''mfr_specific_01'' 0xd1 NO_TYPE NO_UNITS 0,
     desc ''mfr_specific_02'' 0xd2 NO_TYPE NO_UNITS 0,
     desc ''mfr_specific_03'' 0xd3 NO_TYPE NO_UNITS 0,
     desc ''mfr_specific_04'' 0xd4 NO_TYPE NO_UNITS 0,
     desc ''mfr_specific_05'' 0xd5 NO_TYPE NO_UNITS 0,
     desc ''mfr_specific_06'' 0xd6 NO_TYPE NO_UNITS 0,
     desc ''mfr_specific_07'' 0xd7 NO_TYPE NO_UNITS 0,
     desc ''mfr_specific_08'' 0xd8 NO_TYPE NO_UNITS 0,
     desc ''mfr_specific_09'' 0xd9 NO_TYPE NO_UNITS 0,
     desc ''mfr_specific_10'' 0xda NO_TYPE NO_UNITS 0,
     desc ''mfr_specific_11'' 0xdb NO_TYPE NO_UNITS 0,
     desc ''mfr_specific_12'' 0xdc NO_TYPE NO_UNITS 0,
     desc ''mfr_specific_13'' 0xdd NO_TYPE NO_UNITS 0,
     desc ''mfr_specific_14'' 0xde NO_TYPE NO_UNITS 0,
     desc ''mfr_specific_15'' 0xdf NO_TYPE NO_UNITS 0,
     desc ''mfr_specific_16'' 0xe0 NO_TYPE NO_UNITS 0,
     desc ''mfr_specific_17'' 0xe1 NO_TYPE NO_UNITS 0,
     desc ''mfr_specific_18'' 0xe2 NO_TYPE NO_UNITS 0,
     desc ''mfr_specific_19'' 0xe3 NO_TYPE NO_UNITS 0,
     desc ''mfr_specific_20'' 0xe4 NO_TYPE NO_UNITS 0,
     desc ''mfr_specific_21'' 0xe5 NO_TYPE NO_UNITS 0,
     desc ''mfr_specific_22'' 0xe6 NO_TYPE NO_UNITS 0,
     desc ''mfr_specific_23'' 0xe7 NO_TYPE NO_UNITS 0,
     desc ''mfr_specific_24'' 0xe8 NO_TYPE NO_UNITS 0,
     desc ''mfr_specific_25'' 0xe9 NO_TYPE NO_UNITS 0,
     desc ''mfr_specific_26'' 0xea NO_TYPE NO_UNITS 0,
     desc ''mfr_specific_27'' 0xeb NO_TYPE NO_UNITS 0,
     desc ''mfr_specific_28'' 0xed NO_TYPE NO_UNITS 0,
     desc ''mfr_specific_29'' 0xed NO_TYPE NO_UNITS 0,
     desc ''mfr_specific_30'' 0xee NO_TYPE NO_UNITS 0,
     desc ''mfr_specific_31'' 0xef NO_TYPE NO_UNITS 0,
     desc ''mfr_specific_32'' 0xf0 NO_TYPE NO_UNITS 0,
     desc ''mfr_specific_33'' 0xf1 NO_TYPE NO_UNITS 0,
     desc ''mfr_specific_34'' 0xf2 NO_TYPE NO_UNITS 0,
     desc ''mfr_specific_35'' 0xf3 NO_TYPE NO_UNITS 0,
     desc ''mfr_specific_36'' 0xf4 NO_TYPE NO_UNITS 0,
     desc ''mfr_specific_37'' 0xf5 NO_TYPE NO_UNITS 0,
     desc ''mfr_specific_38'' 0xf6 NO_TYPE NO_UNITS 0,
     desc ''mfr_specific_39'' 0xf7 NO_TYPE NO_UNITS 0,
     desc ''mfr_specific_40'' 0xf8 NO_TYPE NO_UNITS 0,
     desc ''mfr_specific_41'' 0xf9 NO_TYPE NO_UNITS 0,
     desc ''mfr_specific_42'' 0xfa NO_TYPE NO_UNITS 0,
     desc ''mfr_specific_43'' 0xfb NO_TYPE NO_UNITS 0,
     desc ''mfr_specific_44'' 0xfc NO_TYPE NO_UNITS 0,
     desc ''mfr_specific_45'' 0xfd NO_TYPE NO_UNITS 0,
     desc ''mfr_specific_command_ext'' 0xfe NO_TYPE NO_UNITS 0,
     desc ''pmbus_command_ext'' 0xff NO_TYPE NO_UNITS 0,
     \<lparr>tag = None, cmd = 0, type = NO_TYPE, units = NO_UNITS, flags = 0, query_byte = 0,
        c = (\<lambda>_. \<lparr>valid = False, R = 0, m = 0, b = 0\<rparr>)\<rparr>
   ]"

definition unsupported :: pmbus_cmd_desc where
  "unsupported = desc ''UNSUPPORTED'' 0 NO_TYPE NO_UNITS 0"

text \<open>
  The session as \<^verbatim>\<open>main\<close> sets it up: \<^verbatim>\<open>memset(&dev, 0, sizeof dev)\<close>, then the
  adapter's capability mask and the device address.
\<close>

definition pmbus_dev_init :: "32 word \<Rightarrow> u8 \<Rightarrow> pmbus_dev" where
  "pmbus_dev_init fs a =
     \<lparr>funcs = fs, addr = a, revision = 0, capability = 0, no_query = False,
      use_pec = False, op = (\<lambda>_. Null), ops = pmbus_ops, trace = []\<rparr>"

section \<open>Coefficients and QUERY\<close>

text \<open>
  The exchange of \<^verbatim>\<open>coefficients\<close> (lines 863--904): a block process call, or two raw
  messages, or \<^verbatim>\<open>-EOPNOTSUPP\<close> when the adapter has neither. \<open>rd\<close> is \<^verbatim>\<open>!!read\<close>.
\<close>

definition coefficients_xfer :: "bus \<Rightarrow> pmbus_dev \<Rightarrow> nat \<Rightarrow> bool \<Rightarrow> reply \<times> pmbus_dev" where
  "coefficients_xfer bus pmdev i rd =
     (let opd = ops pmdev ! i in
      if funcs pmdev AND I2C_FUNC_SMBUS_BLOCK_PROC_CALL \<noteq> 0 then
        ioctl bus pmdev
          (SMBUS_BLOCK_PROC_CALL (ucast PMB_COEFFICIENTS) [2, ucast (cmd opd), of_bool rd])
      else if funcs pmdev AND I2C_FUNC_I2C \<noteq> 0 then
        ioctl bus pmdev
          (I2C_RDWR [ucast PMB_COEFFICIENTS, 2, ucast (cmd opd), of_bool rd] 6)
      else (Failed EOPNOTSUPP, pmdev))"

text \<open>
  \<^verbatim>\<open>coefficients(pmdev, op, read)\<close>, with \<open>op = &pmbus_ops[i]\<close>. A failed exchange and
  a length byte other than 5 return before any assignment.
\<close>

definition coefficients :: "bus \<Rightarrow> pmbus_dev \<Rightarrow> nat \<Rightarrow> int \<Rightarrow> pmbus_dev" where
  "coefficients bus pmdev i read =
     (let rd = (read \<noteq> 0) in
      case coefficients_xfer bus pmdev i rd of
        (Failed e, pmdev) \<Rightarrow> pmdev
      | (Done block, pmdev) \<Rightarrow>
          if block 0 \<noteq> 5 then pmdev
          else
            let opd = ops pmdev ! i;
                cf = c opd rd;
                cf = cf\<lparr>m := push_bit 8 (ucast (block 2)) OR ucast (block 1)\<rparr>;
                cf = cf\<lparr>b := push_bit 8 (ucast (block 4)) OR ucast (block 3)\<rparr>;
                cf = cf\<lparr>R := block 5\<rparr>;
                cf = cf\<lparr>valid := True\<rparr>
            in pmdev\<lparr>ops := (ops pmdev)[i := opd\<lparr>c := (c opd)(rd := cf)\<rparr>]\<rparr>)"

text \<open>
  \<^verbatim>\<open>query(pmdev, op)\<close>, with \<open>op = &pmbus_ops[i]\<close>; its callers pass entries of the
  table only. Its last two blocks come first. Lines 966--972: the coefficients of a
  DIRECT format command; the test \<^verbatim>\<open>pmdev->op[PMB_COEFFICIENTS]\<close> is a test against
  the null pointer. \<open>word\<close> is the query byte.
\<close>

definition query_coefficients :: "bus \<Rightarrow> pmbus_dev \<Rightarrow> nat \<Rightarrow> u16 \<Rightarrow> pmbus_dev" where
  "query_coefficients bus pmdev i word =
     (if drop_bit 2 word AND 7 = 3 \<and> op pmdev (ucast PMB_COEFFICIENTS) \<noteq> Null then
        let pmdev = (if word AND push_bit 5 1 \<noteq> 0 then coefficients bus pmdev i 1 else pmdev)
        in (if word AND push_bit 6 1 \<noteq> 0 then coefficients bus pmdev i 0 else pmdev)
      else pmdev)"

text \<open>
  Lines 974--981: for VOUT\_MODE the \<^verbatim>\<open>int\<close> returned by the byte read, a negative
  errno included, is narrowed to the \<^verbatim>\<open>s8\<close> field \<open>R\<close> of both coefficient slots.
\<close>

definition query_vout_mode :: "bus \<Rightarrow> pmbus_dev \<Rightarrow> nat \<Rightarrow> pmbus_dev" where
  "query_vout_mode bus pmdev i =
     (if cmd (ops pmdev ! i) = PMB_VOUT_MODE then
        (case pmbus_read_byte_data bus pmdev (cmd (ops pmdev ! i)) of
           (value, pmdev) \<Rightarrow>
             let opd = ops pmdev ! i;
                 r = (word_of_int (c_int value) :: 8 word)
             in pmdev\<lparr>ops := (ops pmdev)[i := opd\<lparr>c := (\<lambda>rd. (c opd rd)\<lparr>R := r\<rparr>)\<rparr>]\<rparr>)
      else pmdev)"

definition query :: "bus \<Rightarrow> pmbus_dev \<Rightarrow> nat \<Rightarrow> pmbus_dev" where
  "query bus pmdev i =
     (let opd = ops pmdev ! i in
      if 0xff < cmd opd then pmdev
      else
        let word = push_bit 8 (cmd opd) OR 1 in
        (case ioctl bus pmdev (SMBUS_PROC_CALL (ucast PMB_QUERY) word) of
           (Failed e, pmdev) \<Rightarrow> pmdev\<lparr>no_query := True\<rparr>
         | (Done d, pmdev) \<Rightarrow>
             let word = reply_word d in
             if word AND 0x00ff \<noteq> 1 then pmdev\<lparr>no_query := True\<rparr>
             else
               let word = drop_bit 8 word in
               if word AND push_bit 7 1 = 0 then
                 pmdev\<lparr>op := (op pmdev)(ucast (cmd opd) := Unsupported)\<rparr>
               else
                 let pmdev = pmdev\<lparr>ops := (ops pmdev)[i := opd\<lparr>query_byte := ucast word\<rparr>]\<rparr>;
                     pmdev = pmdev\<lparr>op := (op pmdev)(ucast (cmd opd) := PmbusOps i)\<rparr>;
                     pmdev = query_coefficients bus pmdev i word
                 in query_vout_mode bus pmdev i))"

text \<open>
  The loop of \<^verbatim>\<open>checksupport\<close> (lines 1004--1009), from entry \<open>i\<close> on. The table ends
  with the entry whose \<open>tag\<close> is null; \<open>i < length (ops pmdev)\<close> is the extent of the
  array.
\<close>

function checksupport_loop :: "bus \<Rightarrow> pmbus_dev \<Rightarrow> u16 \<Rightarrow> nat \<Rightarrow> pmbus_dev" where
  "checksupport_loop bus pmdev cmd' i =
     (if i < length (ops pmdev) \<and> \<not> no_query pmdev \<and> tag (ops pmdev ! i) \<noteq> None then
        if cmd (ops pmdev ! i) = cmd' then query bus pmdev i
        else checksupport_loop bus pmdev cmd' (i + 1)
      else pmdev)"
  by pat_completeness auto
termination
  by (relation "measure (\<lambda>(bus, pmdev, cmd', i). length (ops pmdev) - i)") auto

declare checksupport_loop.simps [simp del]

text \<open>
  \<^verbatim>\<open>checksupport(pmdev, cmd)\<close>: negative for "can't tell", 0 for no, 1 for yes. A
  \<open>cmd\<close> above \<open>0xff\<close> that is not extended indexes \<^verbatim>\<open>pmdev->op[]\<close> outside its 256
  entries.
\<close>

definition checksupport :: "bus \<Rightarrow> pmbus_dev \<Rightarrow> u16 \<Rightarrow> fault + int \<times> pmbus_dev" where
  "checksupport bus pmdev cmd' =
     (if is_pmb_extended cmd' then Inr (- 1, pmdev)
      else if op pmdev (ucast PMB_QUERY) = Unsupported \<or> no_query pmdev then Inr (- 1, pmdev)
      else if 0xff < cmd' then Inl OutOfBounds
      else
        let pmdev = (if op pmdev (ucast cmd') = Null
                     then checksupport_loop bus pmdev cmd' 0 else pmdev)
        in Inr (if op pmdev (ucast cmd') \<noteq> Unsupported then 1 else 0, pmdev))"

text \<open>Sequencing of steps that may hit undefined behaviour.\<close>

definition fault_bind :: "fault + 'a \<Rightarrow> ('a \<Rightarrow> fault + 'b) \<Rightarrow> fault + 'b" where
  "fault_bind x f = (case x of Inl e \<Rightarrow> Inl e | Inr v \<Rightarrow> f v)"

text \<open>
  \<^verbatim>\<open>pmbus_read_string\<close>: the 256-byte buffer is cleared, at most 255 bytes are read.
  The result is the buffer when the read returned a positive count.
\<close>

definition pmbus_read_string ::
  "bus \<Rightarrow> pmbus_dev \<Rightarrow> u16 \<Rightarrow> fault + (nat \<Rightarrow> u8) option \<times> pmbus_dev" where
  "pmbus_read_string bus pmdev cmd' =
     fault_bind (checksupport bus pmdev cmd') (\<lambda>(mode, pmdev).
       if mode = 0 then Inr (None, pmdev)
       else
         (case pmbus_read_block bus pmdev cmd' (256 - 1) (Some (\<lambda>k. 0)) of
            (status, buf, pmdev) \<Rightarrow>
              Inr (case status of Inr n \<Rightarrow> (if 0 < n then buf else None) | Inl e \<Rightarrow> None,
                   pmdev)))"

text \<open>
  The loop that ends \<^verbatim>\<open>pmbus_dev_show_p1\<close> (lines 1192--1193), from entry \<open>i\<close> on: it
  calls \<^verbatim>\<open>query\<close> on every entry of the table, whatever \<^verbatim>\<open>pmdev->op[]\<close> holds for
  its command.
\<close>

function show_p1_query_all :: "bus \<Rightarrow> pmbus_dev \<Rightarrow> nat \<Rightarrow> pmbus_dev" where
  "show_p1_query_all bus pmdev i =
     (if i < length (ops pmdev) \<and> \<not> no_query pmdev \<and> tag (ops pmdev ! i) \<noteq> None then
        show_p1_query_all bus (query bus pmdev i) (i + 1)
      else pmdev)"
  by pat_completeness auto
termination
proof (relation "measure (\<lambda>(bus, pmdev, i). length (ops pmdev) - i)")
  show "wf (measure (\<lambda>(bus, pmdev, i). length (ops pmdev) - i))"
    by simp
next
  fix bus :: bus and pmdev :: pmbus_dev and i :: nat
  assume a: "i < length (ops pmdev) \<and> \<not> no_query pmdev \<and> tag (ops pmdev ! i) \<noteq> None"
  have c: "length (ops (coefficients bus s j rd)) = length (ops s)" for s j rd
    by (simp add: coefficients_def coefficients_xfer_def ioctl_def Let_def
        split: prod.splits reply.splits)
  have qc: "length (ops (query_coefficients bus s j w)) = length (ops s)" for s j w
    by (simp add: query_coefficients_def Let_def c)
  have qv: "length (ops (query_vout_mode bus s j)) = length (ops s)" for s j
    by (simp add: query_vout_mode_def pmbus_read_byte_data_def ioctl_def Let_def
        split: prod.splits reply.splits)
  have "length (ops (query bus pmdev i)) = length (ops pmdev)"
    by (simp add: query_def ioctl_def Let_def qc qv split: prod.splits reply.splits)
  with a show "((bus, query bus pmdev i, i + 1), (bus, pmdev, i))
      \<in> measure (\<lambda>(bus, pmdev, i). length (ops pmdev) - i)"
    by (simp add: diff_less_mono2)
qed

declare show_p1_query_all.simps [simp del]

definition PMB_STATUS_BYTE :: u16 where "PMB_STATUS_BYTE = 0x78"
definition PMB_STATUS_WORD :: u16 where "PMB_STATUS_WORD = 0x79"
definition PMB_STATUS_VOUT :: u16 where "PMB_STATUS_VOUT = 0x7a"
definition PMB_STATUS_IOUT :: u16 where "PMB_STATUS_IOUT = 0x7b"
definition PMB_STATUS_INPUT :: u16 where "PMB_STATUS_INPUT = 0x7c"
definition PMB_STATUS_TEMPERATURE :: u16 where "PMB_STATUS_TEMPERATURE = 0x7d"
definition PMB_STATUS_CML :: u16 where "PMB_STATUS_CML = 0x7e"
definition PMB_STATUS_OTHER :: u16 where "PMB_STATUS_OTHER = 0x7f"
definition PMB_STATUS_MFR_SPECIFIC :: u16 where "PMB_STATUS_MFR_SPECIFIC = 0x80"
definition PMB_STATUS_FANS_1_2 :: u16 where "PMB_STATUS_FANS_1_2 = 0x81"
definition PMB_STATUS_FANS_3_4 :: u16 where "PMB_STATUS_FANS_3_4 = 0x82"
definition PMB_PMBUS_REVISION :: u16 where "PMB_PMBUS_REVISION = 0x98"
definition PMB_MFR_ID :: u16 where "PMB_MFR_ID = 0x99"
definition PMB_MFR_MODEL :: u16 where "PMB_MFR_MODEL = 0x9a"
definition PMB_MFR_REVISION :: u16 where "PMB_MFR_REVISION = 0x9b"
definition PMB_MFR_LOCATION :: u16 where "PMB_MFR_LOCATION = 0x9c"
definition PMB_MFR_DATE :: u16 where "PMB_MFR_DATE = 0x9d"
definition PMB_MFR_SERIAL :: u16 where "PMB_MFR_SERIAL = 0x9e"
definition PMB_APP_PROFILES :: u16 where "PMB_APP_PROFILES = 0x9f"
definition PMB_IC_DEVICE_ID :: u16 where "PMB_IC_DEVICE_ID = 0xad"
definition PMB_IC_DEVICE_REV :: u16 where "PMB_IC_DEVICE_REV = 0xae"

text \<open>\<^verbatim>\<open>pmbus_list_inventory\<close>: the eight string reads, in the order of the source.\<close>

definition pmbus_list_inventory :: "bus \<Rightarrow> pmbus_dev \<Rightarrow> fault + pmbus_dev" where
  "pmbus_list_inventory bus pmdev =
     fault_bind (pmbus_read_string bus pmdev PMB_MFR_ID) (\<lambda>(mfr, pmdev).
     fault_bind (pmbus_read_string bus pmdev PMB_MFR_MODEL) (\<lambda>(model, pmdev).
     fault_bind (pmbus_read_string bus pmdev PMB_MFR_REVISION) (\<lambda>(revision, pmdev).
     fault_bind (pmbus_read_string bus pmdev PMB_MFR_LOCATION) (\<lambda>(location, pmdev).
     fault_bind (pmbus_read_string bus pmdev PMB_MFR_DATE) (\<lambda>(date, pmdev).
     fault_bind (pmbus_read_string bus pmdev PMB_MFR_SERIAL) (\<lambda>(serial, pmdev).
     fault_bind (pmbus_read_string bus pmdev PMB_IC_DEVICE_ID) (\<lambda>(ic_device_id, pmdev).
     fault_bind (pmbus_read_string bus pmdev PMB_IC_DEVICE_REV) (\<lambda>(ic_device_rev, pmdev).
       Inr pmdev))))))))"

text \<open>
  \<^verbatim>\<open>pmbus_dev_show_p1\<close> without its printing: the inventory, the application
  profiles (a block read into a 513-byte buffer), and the query of every entry.
\<close>

definition pmbus_dev_show_p1 :: "bus \<Rightarrow> pmbus_dev \<Rightarrow> fault + pmbus_dev" where
  "pmbus_dev_show_p1 bus pmdev =
     fault_bind (pmbus_list_inventory bus pmdev) (\<lambda>pmdev.
     fault_bind (checksupport bus pmdev PMB_APP_PROFILES) (\<lambda>(mode, pmdev).
       let pmdev = (if mode = 1
                    then snd (snd (pmbus_read_block bus pmdev PMB_APP_PROFILES 513 (Some (\<lambda>k. 0))))
                    else pmdev)
       in if no_query pmdev then Inr pmdev
          else Inr (show_p1_query_all bus pmdev 0)))"

text \<open>\<^verbatim>\<open>status_byte\<close> and the functions \<^verbatim>\<open>show_status_...\<close> that call it.\<close>

definition status_byte :: "bus \<Rightarrow> pmbus_dev \<Rightarrow> u16 \<Rightarrow> fault + pmbus_dev" where
  "status_byte bus pmdev cmd' =
     fault_bind (checksupport bus pmdev cmd') (\<lambda>(mode, pmdev).
       if mode = 0 then Inr pmdev
       else Inr (snd (pmbus_read_byte_data bus pmdev cmd')))"

definition show_status_fans :: "bus \<Rightarrow> pmbus_dev \<Rightarrow> fault + pmbus_dev" where
  "show_status_fans bus pmdev =
     fault_bind (status_byte bus pmdev PMB_STATUS_FANS_1_2) (\<lambda>pmdev.
       status_byte bus pmdev PMB_STATUS_FANS_3_4)"

text \<open>
  \<^verbatim>\<open>pmbus_dev_show_status\<close>. \<open>value\<close> is an \<^verbatim>\<open>int\<close> that starts as \<^verbatim>\<open>-EINVAL\<close>; the bit
  tests at the end are made on whatever it holds then.
\<close>

definition show_status_details :: "bus \<Rightarrow> pmbus_dev \<Rightarrow> int \<Rightarrow> fault + pmbus_dev" where
  "show_status_details bus pmdev value =
     fault_bind (if value AND (push_bit 15 1 OR push_bit 5 1) \<noteq> 0
                 then status_byte bus pmdev PMB_STATUS_VOUT else Inr pmdev) (\<lambda>pmdev.
     fault_bind (if value AND (push_bit 14 1 OR push_bit 4 1) \<noteq> 0
                 then status_byte bus pmdev PMB_STATUS_IOUT else Inr pmdev) (\<lambda>pmdev.
     fault_bind (if value AND (push_bit 13 1 OR push_bit 3 1) \<noteq> 0
                 then status_byte bus pmdev PMB_STATUS_INPUT else Inr pmdev) (\<lambda>pmdev.
     fault_bind (if value AND push_bit 12 1 \<noteq> 0
                 then status_byte bus pmdev PMB_STATUS_MFR_SPECIFIC else Inr pmdev) (\<lambda>pmdev.
     fault_bind (if value AND push_bit 10 1 \<noteq> 0
                 then show_status_fans bus pmdev else Inr pmdev) (\<lambda>pmdev.
     fault_bind (if value AND push_bit 9 1 \<noteq> 0
                 then status_byte bus pmdev PMB_STATUS_OTHER else Inr pmdev) (\<lambda>pmdev.
     fault_bind (if value AND push_bit 2 1 \<noteq> 0
                 then status_byte bus pmdev PMB_STATUS_TEMPERATURE else Inr pmdev) (\<lambda>pmdev.
       if value AND push_bit 1 1 \<noteq> 0
       then status_byte bus pmdev PMB_STATUS_CML else Inr pmdev)))))))"

definition pmbus_dev_show_status :: "bus \<Rightarrow> pmbus_dev \<Rightarrow> fault + pmbus_dev" where
  "pmbus_dev_show_status bus pmdev =
     fault_bind (checksupport bus pmdev PMB_STATUS_WORD) (\<lambda>(mode, pmdev).
       let (value, pmdev) =
             (if mode \<noteq> 0
              then (case pmbus_read_word_data bus pmdev PMB_STATUS_WORD of
                      (r, pmdev) \<Rightarrow> (c_int r, pmdev))
              else (- int EINVAL, pmdev))
       in if mode \<noteq> 0 \<and> mode = 1 \<and> value < 0 then Inr pmdev
          else if value < 0 then
            fault_bind (checksupport bus pmdev PMB_STATUS_BYTE) (\<lambda>(mode, pmdev).
              if mode \<noteq> 0 then
                (case pmbus_read_byte_data bus pmdev PMB_STATUS_BYTE of
                   (r, pmdev) \<Rightarrow>
                     if c_int r < 0 then Inr pmdev
                     else show_status_details bus pmdev (c_int r))
              else show_status_details bus pmdev value)
          else show_status_details bus pmdev value)"

section \<open>Reporting\<close>

text \<open>
  \<^verbatim>\<open>vout_mode_is_linear\<close> compares \<^verbatim>\<open>pmdev->op[PMB_VOUT_MODE]\<close> with the address
  of \<^verbatim>\<open>unsupported\<close> only, then reads \<^verbatim>\<open>c[0].R\<close> through it.
\<close>

definition vout_mode_is_linear :: "pmbus_dev \<Rightarrow> fault + bool" where
  "vout_mode_is_linear pmdev =
     (case op pmdev (ucast PMB_VOUT_MODE) of
        Unsupported \<Rightarrow> Inr False
      | Null \<Rightarrow> Inl NullDeref
      | PmbusOps j \<Rightarrow>
          if R (c (ops pmdev ! j) False) AND 0xe0 \<noteq> 0 then Inr False else Inr True)"

text \<open>
  The two loops of \<^verbatim>\<open>pmbus_to_vout_format\<close>, each with its counter \<open>i\<close>. They scale an
  integer below \<open>2^16\<close> by a power of two between \<open>2^-16\<close> and \<open>2^15\<close>, which a
  \<^verbatim>\<open>double\<close> does without rounding, so the result is given as the real number it is.
\<close>

function vout_double :: "int \<Rightarrow> int \<Rightarrow> real \<Rightarrow> real" where
  "vout_double i exponent result =
     (if i < exponent then vout_double (i + 1) exponent (result * 2) else result)"
  by pat_completeness auto
termination
  by (relation "measure (\<lambda>(i, exponent, result). nat (exponent - i))") auto

declare vout_double.simps [simp del]

function vout_halve :: "int \<Rightarrow> int \<Rightarrow> real \<Rightarrow> real" where
  "vout_halve i exponent result =
     (if i < - exponent then vout_halve (i + 1) exponent (result / 2) else result)"
  by pat_completeness auto
termination
  by (relation "measure (\<lambda>(i, exponent, result). nat (- exponent - i))") auto

declare vout_halve.simps [simp del]

text \<open>
  \<^verbatim>\<open>pmbus_to_vout_format\<close>. The \<^verbatim>\<open>s8\<close> field \<open>R\<close> is promoted to \<^verbatim>\<open>int\<close> before the
  mask; \<^verbatim>\<open>~mask\<close> is \<open>NOT 0xf\<close> on \<^verbatim>\<open>int\<close>.
\<close>

definition pmbus_to_vout_format :: "pmbus_dev \<Rightarrow> int \<Rightarrow> fault + real" where
  "pmbus_to_vout_format pmdev value =
     (case op pmdev (ucast PMB_VOUT_MODE) of
        Null \<Rightarrow> Inl NullDeref
      | Unsupported \<Rightarrow>
          Inr (let exponent = sint (R (c unsupported False)) AND 0x1f;
                   exponent = (if exponent AND 0x10 \<noteq> 0
                               then - (- (exponent AND 0xf) + (exponent AND NOT 0xf))
                               else exponent)
               in if 0 < exponent then vout_double 0 exponent (of_int value)
                  else vout_halve 0 exponent (of_int value))
      | PmbusOps j \<Rightarrow>
          Inr (let exponent = sint (R (c (ops pmdev ! j) False)) AND 0x1f;
                   exponent = (if exponent AND 0x10 \<noteq> 0
                               then - (- (exponent AND 0xf) + (exponent AND NOT 0xf))
                               else exponent)
               in if 0 < exponent then vout_double 0 exponent (of_int value)
                  else vout_halve 0 exponent (of_int value)))"

text \<open>\<^verbatim>\<open>units(op)\<close>; the result is null for the units that have no name.\<close>

definition units_name :: "pmbus_cmd_desc \<Rightarrow> string option" where
  "units_name opd =
     (case units opd of
        VOLTS \<Rightarrow> Some ''Volts''
      | AMPERES \<Rightarrow> Some ''Amperes''
      | MILLISECONDS \<Rightarrow> Some ''milliseconds''
      | DEGREES_C \<Rightarrow> Some ''degrees Celsius''
      | WATTS \<Rightarrow> Some ''Watts''
      | _ \<Rightarrow> None)"

text \<open>
  The cases \<^verbatim>\<open>RW2\<close> and \<^verbatim>\<open>R2\<close> of the \<^verbatim>\<open>switch (op->type)\<close> of
  \<^verbatim>\<open>pmbus_dev_show_commands\<close> (lines 1509--1534): the text of \<^verbatim>\<open>format\<close> and the
  flag \<^verbatim>\<open>direct\<close>. The operator \<^verbatim>\<open>&&\<close> calls \<^verbatim>\<open>vout_mode_is_linear\<close> only when the
  flags equal \<^verbatim>\<open>FLG_FORMAT_VOUT\<close>.
\<close>

definition show_commands_word_format ::
  "pmbus_dev \<Rightarrow> pmbus_cmd_desc \<Rightarrow> fault + string \<times> bool" where
  "show_commands_word_format pmdev opd =
     fault_bind (if flags opd = FLG_FORMAT_VOUT then vout_mode_is_linear pmdev
                 else Inr False) (\<lambda>vout.
       if vout then Inr (''x16 (VOUT_MODE)'', False)
       else
         let fmt = unat (drop_bit 2 (query_byte opd) AND 7) in
         if fmt = 0 then
           (if units opd = BITS then Inr (''u16 (bitmask)'', False)
            else Inr (''s16 (LINEAR)'', False))
         else if fmt = 3 then Inr (''s16 (DIRECT)'', True)
         else if fmt = 5 then Inr (''u16 (VID)'', False)
         else if fmt = 6 then Inr (''x16 (MFR)'', False)
         else Inr (''x16 (UNKNOWN)'', False))"

text \<open>The whole \<^verbatim>\<open>switch (op->type)\<close> (lines 1498--1549).\<close>

definition show_commands_format :: "pmbus_dev \<Rightarrow> pmbus_cmd_desc \<Rightarrow> fault + string \<times> bool" where
  "show_commands_format pmdev opd =
     (case type opd of
        W0 \<Rightarrow> Inr (''nodata'', False)
      | RW1 \<Rightarrow> Inr (''u8 (bitmask)'', False)
      | W1 \<Rightarrow> Inr (''u8 (bitmask)'', False)
      | R1 \<Rightarrow> Inr (''u8 (bitmask)'', False)
      | RW2 \<Rightarrow> show_commands_word_format pmdev opd
      | R2 \<Rightarrow> show_commands_word_format pmdev opd
      | RWB \<Rightarrow> Inr (''block'', False)
      | RWB14 \<Rightarrow> Inr (''block'', False)
      | RWP_QUERY \<Rightarrow> Inr (''process_call'', False)
      | RWP_COEFF \<Rightarrow> Inr (''process_call'', False)
      | RWB_APP_PROFILE \<Rightarrow> Inr (''(Application Profile)'', False)
      | NO_TYPE \<Rightarrow> Inr (''(UNKNOWN call syntax)'', False))"

text \<open>
  One round of the loop of \<^verbatim>\<open>pmbus_dev_show_commands\<close>, for slot \<open>i\<close>: nothing for a
  null or unsupported slot, else the line printed (tag, readable, writable, format,
  units).
\<close>

definition show_commands_entry ::
  "pmbus_dev \<Rightarrow> nat \<Rightarrow> fault + (string option \<times> bool \<times> bool \<times> string \<times> string option) option"
  where
  "show_commands_entry pmdev i =
     (case op pmdev (of_nat i) of
        Null \<Rightarrow> Inr None
      | Unsupported \<Rightarrow> Inr None
      | PmbusOps j \<Rightarrow>
          let opd = ops pmdev ! j in
          fault_bind (show_commands_format pmdev opd) (\<lambda>(format, direct).
            Inr (Some (tag opd,
                       query_byte opd AND push_bit 5 1 \<noteq> 0,
                       query_byte opd AND push_bit 6 1 \<noteq> 0,
                       format,
                       (case units_name opd of
                          None \<Rightarrow> (if units opd = STRING then Some ''ISO 8859/1 string''
                                    else None)
                        | Some u \<Rightarrow> Some u)))))"

text \<open>The loop \<^verbatim>\<open>for (i = 0; i < 255; i++)\<close>; the lines printed are collected.\<close>

function pmbus_dev_show_commands_from ::
  "pmbus_dev \<Rightarrow> nat \<Rightarrow> fault + (string option \<times> bool \<times> bool \<times> string \<times> string option) list"
  where
  "pmbus_dev_show_commands_from pmdev i =
     (if i < 255 then
        fault_bind (show_commands_entry pmdev i) (\<lambda>line.
        fault_bind (pmbus_dev_show_commands_from pmdev (i + 1)) (\<lambda>rest.
          Inr (case line of None \<Rightarrow> rest | Some l \<Rightarrow> l # rest)))
      else Inr [])"
  by pat_completeness auto
termination
  by (relation "measure (\<lambda>(pmdev, i). 255 - i)") auto

declare pmbus_dev_show_commands_from.simps [simp del]

definition pmbus_dev_show_commands ::
  "pmbus_dev \<Rightarrow> fault + (string option \<times> bool \<times> bool \<times> string \<times> string option) list" where
  "pmbus_dev_show_commands pmdev = pmbus_dev_show_commands_from pmdev 0"

text \<open>
  What \<^verbatim>\<open>pmbus_dev_show_values\<close> prints after the raw value: a \<^verbatim>\<open>double\<close> printed with
  \<^verbatim>\<open>%g\<close>, an \<^verbatim>\<open>int\<close> printed with \<^verbatim>\<open>%d\<close>, or a fixed text.
\<close>

datatype shown = Shown_g double | Shown_d int | Shown_text string

text \<open>
  The decoding of a word value (lines 1632--1704) for the descriptor \<open>opd\<close> and the
  value read.
\<close>

definition show_values_word :: "pmbus_dev \<Rightarrow> pmbus_cmd_desc \<Rightarrow> int \<Rightarrow> fault + shown" where
  "show_values_word pmdev opd value =
     fault_bind (if flags opd = FLG_FORMAT_VOUT then vout_mode_is_linear pmdev
                 else Inr False) (\<lambda>vout.
       if vout then
         fault_bind (pmbus_to_vout_format pmdev value) (\<lambda>d. Inr (Shown_g (Finite d)))
       else
         let fmt = unat (drop_bit 2 (query_byte opd) AND 7) in
         if fmt = 0 then
           (if units opd = BITS then Inr (Shown_text ''(BITMAP)'')
            else Inr (Shown_g (Finite (linear_decode value))))
         else if fmt = 1 then Inr (Shown_d value)
         else if fmt = 3 then Inr (Shown_g (direct_decode opd value))
         else if fmt = 4 then Inr (Shown_d (value AND 0xff))
         else if fmt = 5 then Inr (Shown_text ''u16 (VID)'')
         else if fmt = 6 then Inr (Shown_text ''manufacturer specific'')
         else Inr (Shown_text ''unknown format''))"

text \<open>
  One round of the loop of \<^verbatim>\<open>pmbus_dev_show_values\<close>, for slot \<open>i\<close>: the name, the
  raw value and what is printed for it, or nothing when the round ends with
  \<^verbatim>\<open>continue\<close>.
\<close>

definition show_values_entry ::
  "bus \<Rightarrow> pmbus_dev \<Rightarrow> nat \<Rightarrow> fault + (string \<times> int \<times> shown) option \<times> pmbus_dev" where
  "show_values_entry bus pmdev i =
     (case op pmdev (of_nat i) of
        Null \<Rightarrow> Inr (None, pmdev)
      | Unsupported \<Rightarrow> Inr (None, pmdev)
      | PmbusOps j \<Rightarrow>
          let opd = ops pmdev ! j in
          if flags opd AND (FLG_SHOW_P1 OR FLG_STATUS) \<noteq> 0 then Inr (None, pmdev)
          else
            let name = (case tag opd of None \<Rightarrow> [] | Some t \<Rightarrow> t);
                name = (if take 5 name = ''read_'' then drop 5 name else name)
            in if type opd = RW1 \<or> type opd = R1 then
                 (case pmbus_read_byte_data bus pmdev (cmd opd) of
                    (Inl e, pmdev) \<Rightarrow> Inr (None, pmdev)
                  | (Inr v, pmdev) \<Rightarrow>
                      Inr (Some (name, uint v, Shown_text ''(BITMAP)''), pmdev))
               else if type opd = RW2 \<or> type opd = R2 then
                 (case pmbus_read_word_data bus pmdev (cmd opd) of
                    (Inl e, pmdev) \<Rightarrow> Inr (None, pmdev)
                  | (Inr v, pmdev) \<Rightarrow>
                      fault_bind (show_values_word pmdev opd (uint v)) (\<lambda>sh.
                        Inr (Some (name, uint v, sh), pmdev)))
               else Inr (None, pmdev))"

function pmbus_dev_show_values_from ::
  "bus \<Rightarrow> pmbus_dev \<Rightarrow> nat \<Rightarrow> fault + (string \<times> int \<times> shown) list \<times> pmbus_dev" where
  "pmbus_dev_show_values_from bus pmdev i =
     (if i < 255 then
        fault_bind (show_values_entry bus pmdev i) (\<lambda>(line, pmdev).
        fault_bind (pmbus_dev_show_values_from bus pmdev (i + 1)) (\<lambda>(rest, pmdev).
          Inr (case line of None \<Rightarrow> rest | Some l \<Rightarrow> l # rest, pmdev)))
      else Inr ([], pmdev))"
  by pat_completeness auto
termination
  by (relation "measure (\<lambda>(bus, pmdev, i). 255 - i)") auto

declare pmbus_dev_show_values_from.simps [simp del]

definition pmbus_dev_show_values ::
  "bus \<Rightarrow> pmbus_dev \<Rightarrow> fault + (string \<times> int \<times> shown) list \<times> pmbus_dev" where
  "pmbus_dev_show_values bus pmdev = pmbus_dev_show_values_from bus pmdev 0"

text \<open>\<^verbatim>\<open>pmbus_clear_fault\<close>: the send-byte is skipped only on the answer 0.\<close>

definition pmbus_clear_fault :: "bus \<Rightarrow> pmbus_dev \<Rightarrow> fault + pmbus_dev" where
  "pmbus_clear_fault bus pmdev =
     fault_bind (checksupport bus pmdev PMB_CLEAR_FAULT) (\<lambda>(mode, pmdev).
       if mode \<noteq> 0 then Inr (snd (smbus_write_byte bus pmdev (ucast PMB_CLEAR_FAULT)))
       else Inr pmdev)"

definition I2C_FUNC_SMBUS_QUICK :: "32 word" where "I2C_FUNC_SMBUS_QUICK = 0x00010000"

text \<open>
  \<^verbatim>\<open>pmbus_dev_scan\<close>; \<open>enable_pec\<close> is the global flag set by the option \<^verbatim>\<open>-p\<close>. The
  result is \<open>Inl e\<close> for the return value \<open>- e\<close> of a failed presence check.
\<close>

definition pmbus_dev_scan :: "bus \<Rightarrow> bool \<Rightarrow> pmbus_dev \<Rightarrow> fault + (nat + unit) \<times> pmbus_dev" where
  "pmbus_dev_scan bus enable_pec pmdev =
     (let (status, pmdev) =
            (if funcs pmdev AND I2C_FUNC_SMBUS_QUICK \<noteq> 0
             then ioctl bus pmdev SMBUS_QUICK else (Done (\<lambda>k. 0), pmdev))
      in case status of
           Failed e \<Rightarrow> Inr (Inl e, pmdev)
         | Done d \<Rightarrow>
             fault_bind (checksupport bus pmdev PMB_QUERY) (\<lambda>(mode, pmdev).
             fault_bind (checksupport bus pmdev PMB_CAPABILITY) (\<lambda>(mode, pmdev).
               let pmdev =
                     (if mode \<noteq> 0 then
                        (case pmbus_read_byte_data bus pmdev PMB_CAPABILITY of
                           (Inl e, pmdev) \<Rightarrow> pmdev
                         | (Inr v, pmdev) \<Rightarrow>
                             let pmdev = pmdev\<lparr>capability := v\<rparr> in
                             if v AND push_bit 7 1 \<noteq> 0 \<and> enable_pec then
                               (case ioctl bus pmdev (I2C_PEC True) of
                                  (Failed e, pmdev) \<Rightarrow> pmdev
                                | (Done d, pmdev) \<Rightarrow> pmdev\<lparr>use_pec := True\<rparr>)
                             else pmdev)
                      else pmdev)
               in fault_bind (checksupport bus pmdev PMB_PMBUS_REVISION) (\<lambda>(mode, pmdev).
                    let pmdev =
                          (if mode \<noteq> 0 then
                             (case pmbus_read_byte_data bus pmdev PMB_PMBUS_REVISION of
                                (Inl e, pmdev) \<Rightarrow> pmdev
                              | (Inr v, pmdev) \<Rightarrow> pmdev\<lparr>revision := v\<rparr>)
                           else pmdev)
                    in Inr (Inr (), pmdev)))))"

text \<open>\<^verbatim>\<open>pmbus_dev_show\<close>, without what it prints.\<close>

definition pmbus_dev_show :: "bus \<Rightarrow> pmbus_dev \<Rightarrow> bool \<Rightarrow> bool \<Rightarrow> fault + pmbus_dev" where
  "pmbus_dev_show bus pmdev values cmds =
     fault_bind (pmbus_dev_show_p1 bus pmdev) (\<lambda>pmdev.
     fault_bind (if values
                 then fault_bind (pmbus_dev_show_status bus pmdev) (\<lambda>pmdev.
                        map_sum id snd (pmbus_dev_show_values bus pmdev))
                 else Inr pmdev) (\<lambda>pmdev.
       if cmds then map_sum id (\<lambda>lines. pmdev) (pmbus_dev_show_commands pmdev)
       else Inr pmdev))"

text \<open>
  The end of \<^verbatim>\<open>main\<close> (lines 2010--2026): the manufacturer specific command chosen
  with the option \<^verbatim>\<open>-m\<close>, 0 when there is none.
\<close>

definition main_mfr_cmd :: "bus \<Rightarrow> pmbus_dev \<Rightarrow> u8 \<Rightarrow> fault + pmbus_dev" where
  "main_mfr_cmd bus pmdev mfr_cmd =
     (if mfr_cmd \<noteq> 0 then
        fault_bind (checksupport bus pmdev (ucast mfr_cmd)) (\<lambda>(mode, pmdev).
          if mode = 0 then Inr pmdev
          else Inr (snd (smbus_write_byte bus pmdev mfr_cmd)))
      else Inr pmdev)"

section \<open>Sessions\<close>

text \<open>
  The operations a session is made of: the functions of the source that work on the
  \<^verbatim>\<open>pmbus_dev\<close>, each with the arguments the caller chooses. \<open>Sweep\<close> is the query of
  every table entry that ends \<^verbatim>\<open>pmbus_dev_show_p1\<close> (lines 1187--1193), on its own.
  \<^verbatim>\<open>main\<close> runs \<open>Scan\<close>, then at most one \<open>WriteByteData\<close> (the PAGE), \<open>Show\<close>,
  \<open>ClearFault\<close> and \<open>MfrCmd\<close>, in this order.
\<close>

datatype session_op =
    CheckSupport u16
  | ReadString u16
  | ReadBlock u16 nat
  | StatusByte u16
  | Scan bool
  | ShowP1
  | Sweep
  | ShowStatus
  | ShowValues
  | ShowCommands
  | Show bool bool
  | ClearFault
  | WriteByteData u16 u8
  | MfrCmd u8

definition step :: "bus \<Rightarrow> pmbus_dev \<Rightarrow> session_op \<Rightarrow> fault + pmbus_dev" where
  "step bus pmdev a =
     (case a of
        CheckSupport k \<Rightarrow> map_sum id snd (checksupport bus pmdev k)
      | ReadString k \<Rightarrow> map_sum id snd (pmbus_read_string bus pmdev k)
      | ReadBlock k n \<Rightarrow> Inr (snd (snd (pmbus_read_block bus pmdev k n (Some (\<lambda>k. 0)))))
      | StatusByte k \<Rightarrow> status_byte bus pmdev k
      | Scan enable_pec \<Rightarrow> map_sum id snd (pmbus_dev_scan bus enable_pec pmdev)
      | ShowP1 \<Rightarrow> pmbus_dev_show_p1 bus pmdev
      | Sweep \<Rightarrow> Inr (if no_query pmdev then pmdev else show_p1_query_all bus pmdev 0)
      | ShowStatus \<Rightarrow> pmbus_dev_show_status bus pmdev
      | ShowValues \<Rightarrow> map_sum id snd (pmbus_dev_show_values bus pmdev)
      | ShowCommands \<Rightarrow> map_sum id (\<lambda>lines. pmdev) (pmbus_dev_show_commands pmdev)
      | Show values cmds \<Rightarrow> pmbus_dev_show bus pmdev values cmds
      | ClearFault \<Rightarrow> pmbus_clear_fault bus pmdev
      | WriteByteData k v \<Rightarrow> Inr (snd (pmbus_write_byte_data bus pmdev k v))
      | MfrCmd v \<Rightarrow> main_mfr_cmd bus pmdev v)"

fun run :: "bus \<Rightarrow> pmbus_dev \<Rightarrow> session_op list \<Rightarrow> fault + pmbus_dev" where
  "run bus pmdev [] = Inr pmdev"
| "run bus pmdev (a # as) = fault_bind (step bus pmdev a) (\<lambda>pmdev. run bus pmdev as)"

text \<open>The QUERY process calls among the requests of a trace.\<close>

definition query_calls :: "bus_op list \<Rightarrow> bus_op list" where
  "query_calls tr =
     filter (\<lambda>r. case r of SMBUS_PROC_CALL k w \<Rightarrow> k = ucast PMB_QUERY | _ \<Rightarrow> False) tr"

text \<open>
  \<open>keeps s s'\<close>: from \<open>s\<close> to \<open>s'\<close> the slots, the table, the flag \<open>no_query\<close> and the
  adapter's capability mask are the same, and no QUERY process call was issued.
\<close>

definition keeps :: "pmbus_dev \<Rightarrow> pmbus_dev \<Rightarrow> bool" where
  "keeps s s' \<longleftrightarrow>
     op s' = op s \<and> ops s' = ops s \<and> no_query s' = no_query s \<and> funcs s' = funcs s \<and>
     query_calls (trace s') = query_calls (trace s)"

text \<open>
  The position of the first table entry for command \<open>k\<close> before the terminating
  entry, counting from \<open>i\<close>: what the loop of \<^verbatim>\<open>checksupport\<close> looks for.
\<close>

fun catalog_index :: "pmbus_cmd_desc list \<Rightarrow> u16 \<Rightarrow> nat \<Rightarrow> nat option" where
  "catalog_index [] k i = None"
| "catalog_index (d # ds) k i =
     (if tag d = None then None
      else if cmd d = k then Some i
      else catalog_index ds k (i + 1))"

text \<open>The operations that query every entry of the table.\<close>

fun is_sweep :: "session_op \<Rightarrow> bool" where
  "is_sweep ShowP1 = True"
| "is_sweep Sweep = True"
| "is_sweep (Show values cmds) = True"
| "is_sweep a = False"

text \<open>
  Two notions for the proofs about sessions. A set of states is stable when no
  operation that keeps the slots, and no call of \<^verbatim>\<open>checksupport\<close>, leads out of it;
  \<open>inv_kept I x st\<close> says that the result \<open>x\<close> of a step, when there is one, has its
  state \<open>st v\<close> in \<open>I\<close>.
\<close>

definition inv_stable :: "bus \<Rightarrow> pmbus_dev set \<Rightarrow> bool" where
  "inv_stable bus I \<longleftrightarrow>
     (\<forall>s s'. keeps s s' \<longrightarrow> s \<in> I \<longrightarrow> s' \<in> I) \<and>
     (\<forall>s k r s'. checksupport bus s k = Inr (r, s') \<longrightarrow> s \<in> I \<longrightarrow> s' \<in> I)"

definition inv_kept :: "pmbus_dev set \<Rightarrow> fault + 'a \<Rightarrow> ('a \<Rightarrow> pmbus_dev) \<Rightarrow> bool" where
  "inv_kept I x st \<longleftrightarrow> (\<forall>v. x = Inr v \<longrightarrow> st v \<in> I)"

section \<open>Adapters and devices used as examples\<close>

text \<open>An adapter that accepts the PEC setting and fails every transfer with \<^verbatim>\<open>EIO\<close>.\<close>

definition bus_pec_only :: bus where
  "bus_pec_only tr = (case last tr of I2C_PEC v \<Rightarrow> Done (\<lambda>k. 0) | _ \<Rightarrow> Failed 5)"

text \<open>A device whose every read starts with the length byte 40, then 1, 2, 3, ...\<close>

definition bus_block40 :: bus where
  "bus_block40 tr = Done (\<lambda>k. if k = 0 then 40 else of_nat k)"

text \<open>A device that answers every exchange with a block of declared length 4.\<close>

definition bus_short :: bus where
  "bus_short tr = Done (\<lambda>k. if k = 0 then 4 else 0xff)"

text \<open>
  A device that answers every QUERY with the echo byte 1 and the query byte \<open>0x80\<close>
  (supported, LINEAR format).
\<close>

definition bus_supported :: bus where
  "bus_supported tr = Done (\<lambda>k. if k = 0 then 1 else 0x80)"

text \<open>
  A device that answers every QUERY with the echo byte 1 and the query byte 0: the
  command is not supported.
\<close>

definition bus_unsupported :: bus where
  "bus_unsupported tr = Done (\<lambda>k. if k = 0 then 1 else 0)"

text \<open>
  A device that reports PAGE (command 0) as not supported when it is asked first, and
  as supported when it is asked again; the QUERY for command 1 fails, every other
  QUERY reports "not supported", and every other transfer fails.
\<close>

definition bus_paged :: bus where
  "bus_paged tr =
     (case last tr of
        SMBUS_PROC_CALL q w \<Rightarrow>
          if w = 0x0001 then Done (\<lambda>k. if k = 0 then 1 else if length tr = 1 then 0 else 0x80)
          else if w = 0x0101 then Failed 5
          else Done (\<lambda>k. if k = 0 then 1 else 0)
      | _ \<Rightarrow> Failed 5)"

text \<open>
  A device whose answers depend on the request only: the commands up to 5 are
  supported, the QUERY for a command from 6 to \<open>0x98\<close> fails, the commands from
  \<open>0x99\<close> on are not supported, and every other transfer fails.
\<close>

definition bus_low :: bus where
  "bus_low tr =
     (case last tr of
        SMBUS_PROC_CALL q w \<Rightarrow>
          if w \<le> 0x05ff then Done (\<lambda>k. if k = 0 then 1 else 0x80)
          else if w < 0x9900 then Failed 5
          else Done (\<lambda>k. if k = 0 then 1 else 0)
      | _ \<Rightarrow> Failed 5)"

section \<open>Frame properties of the bus operations\<close>

lemma keeps_refl [simp]: "keeps s s"
  by (simp add: keeps_def)

lemma keeps_trans: "keeps s s1 \<Longrightarrow> keeps s1 s2 \<Longrightarrow> keeps s s2"
  by (simp add: keeps_def)

lemma ioctl_keeps:
  "(\<And>k w. r \<noteq> SMBUS_PROC_CALL k w) \<Longrightarrow> ioctl bus s r = (x, s') \<Longrightarrow> keeps s s'"
  by (cases r) (auto simp: ioctl_def keeps_def query_calls_def)

lemma read_byte_keeps: "pmbus_read_byte_data bus s k = (x, s') \<Longrightarrow> keeps s s'"
  by (auto simp: pmbus_read_byte_data_def split: if_splits prod.splits reply.splits
      dest!: ioctl_keeps [rotated])

lemma read_word_keeps: "pmbus_read_word_data bus s k = (x, s') \<Longrightarrow> keeps s s'"
  by (auto simp: pmbus_read_word_data_def split: if_splits prod.splits reply.splits
      dest!: ioctl_keeps [rotated])

lemma write_byte_keeps: "smbus_write_byte bus s v = (x, s') \<Longrightarrow> keeps s s'"
  by (auto simp: smbus_write_byte_def split: prod.splits reply.splits
      dest!: ioctl_keeps [rotated])

lemma write_byte_data_keeps: "pmbus_write_byte_data bus s k v = (x, s') \<Longrightarrow> keeps s s'"
  by (auto simp: pmbus_write_byte_data_def split: if_splits prod.splits reply.splits
      dest!: ioctl_keeps [rotated])

lemma try_i2c_keeps:
  "read_block_try_i2c bus s k n rb len rv = (x, rb', s') \<Longrightarrow> keeps s s'"
  by (auto simp: read_block_try_i2c_def split: if_splits prod.splits reply.splits
      dest!: ioctl_keeps [rotated])

lemma pec_keeps: "keeps s (snd (ioctl bus s (I2C_PEC v)))"
  by (simp add: ioctl_def keeps_def query_calls_def)

lemma read_block_keeps: "pmbus_read_block bus s k n rb = (x, rb', s') \<Longrightarrow> keeps s s'"
proof -
  assume a: "pmbus_read_block bus s k n rb = (x, rb', s')"
  define s1 where "s1 = (if use_pec s then snd (ioctl bus s (I2C_PEC False)) else s)"
  have k1: "keeps s s1"
    by (simp add: s1_def pec_keeps)
  show ?thesis
  proof (cases "rb = None \<or> n = 0 \<or> is_pmb_extended k \<or> \<not> is_pmb_8bit k")
    case True
    with a show ?thesis
      by (auto simp: pmbus_read_block_def split: option.splits if_splits)
  next
    case False
    then obtain b where rb: "rb = Some b"
      by auto
    obtain r s2 where rd: "pmbus_read_byte_data bus s1 k = (r, s2)"
      by (cases "pmbus_read_byte_data bus s1 k")
    have k2: "keeps s s2"
      using k1 read_byte_keeps [OF rd] by (rule keeps_trans)
    show ?thesis
    proof (cases r)
      case (Inl e)
      with a False rb rd k2 show ?thesis
        by (simp add: pmbus_read_block_def s1_def [symmetric])
    next
      case (Inr len)
      define s3 where "s3 = (if use_pec s2 then snd (ioctl bus s2 (I2C_PEC True)) else s2)"
      have k3: "keeps s s3"
        using k2 by (auto simp: s3_def intro: keeps_trans pec_keeps)
      from a False rb rd Inr show ?thesis
        using k3
        by (auto simp: pmbus_read_block_def s1_def [symmetric] s3_def [symmetric] Let_def
            split: if_splits prod.splits reply.splits
            dest!: try_i2c_keeps ioctl_keeps [rotated] intro: keeps_trans)
    qed
  qed
qed

lemma map_update_same: "(map f xs)[i := f (xs ! i)] = map f xs"
  by (cases "i < length xs") (simp_all add: list_update_same_conv list_update_beyond)

lemma coefficients_frame:
  "op (coefficients bus s i rd) = op s"
  "no_query (coefficients bus s i rd) = no_query s"
  "funcs (coefficients bus s i rd) = funcs s"
  "length (ops (coefficients bus s i rd)) = length (ops s)"
  "map cmd (ops (coefficients bus s i rd)) = map cmd (ops s)"
  "map tag (ops (coefficients bus s i rd)) = map tag (ops s)"
  "j \<noteq> i \<Longrightarrow> ops (coefficients bus s i rd) ! j = ops s ! j"
  by (auto simp: coefficients_def coefficients_xfer_def ioctl_def Let_def map_update
      map_update_same split: prod.splits reply.splits)

lemma query_coefficients_frame:
  "op (query_coefficients bus s i w) = op s"
  "no_query (query_coefficients bus s i w) = no_query s"
  "funcs (query_coefficients bus s i w) = funcs s"
  "length (ops (query_coefficients bus s i w)) = length (ops s)"
  "map cmd (ops (query_coefficients bus s i w)) = map cmd (ops s)"
  "map tag (ops (query_coefficients bus s i w)) = map tag (ops s)"
  "j \<noteq> i \<Longrightarrow> ops (query_coefficients bus s i w) ! j = ops s ! j"
  by (simp_all add: query_coefficients_def Let_def coefficients_frame)

lemma query_vout_mode_frame:
  "op (query_vout_mode bus s i) = op s"
  "no_query (query_vout_mode bus s i) = no_query s"
  "funcs (query_vout_mode bus s i) = funcs s"
  "length (ops (query_vout_mode bus s i)) = length (ops s)"
  "map cmd (ops (query_vout_mode bus s i)) = map cmd (ops s)"
  "map tag (ops (query_vout_mode bus s i)) = map tag (ops s)"
  "j \<noteq> i \<Longrightarrow> ops (query_vout_mode bus s i) ! j = ops s ! j"
  by (auto simp: query_vout_mode_def Let_def map_update map_update_same keeps_def
      split: prod.splits dest!: read_byte_keeps)

lemma query_frame:
  "funcs (query bus s i) = funcs s"
  "length (ops (query bus s i)) = length (ops s)"
  "map cmd (ops (query bus s i)) = map cmd (ops s)"
  "map tag (ops (query bus s i)) = map tag (ops s)"
  "j \<noteq> i \<Longrightarrow> ops (query bus s i) ! j = ops s ! j"
  by (auto simp: query_def ioctl_def Let_def map_update map_update_same
      query_coefficients_frame query_vout_mode_frame split: prod.splits reply.splits)

lemma query_no_query: "no_query s \<Longrightarrow> no_query (query bus s i)"
  by (auto simp: query_def ioctl_def Let_def query_coefficients_frame query_vout_mode_frame
      split: prod.splits reply.splits)

lemma query_other_slot: "k \<noteq> ucast (cmd (ops s ! i)) \<Longrightarrow> op (query bus s i) k = op s k"
  by (auto simp: query_def ioctl_def Let_def query_coefficients_frame query_vout_mode_frame
      split: prod.splits reply.splits)

lemma checksupport_loop_cases:
  "checksupport_loop bus s k i = s \<or>
   (\<exists>j. i \<le> j \<and> j < length (ops s) \<and> tag (ops s ! j) \<noteq> None \<and> cmd (ops s ! j) = k \<and>
        checksupport_loop bus s k i = query bus s j)"
proof (induction bus s k i rule: checksupport_loop.induct)
  case (1 bus s k i)
  show ?case
  proof (cases "i < length (ops s) \<and> \<not> no_query s \<and> tag (ops s ! i) \<noteq> None")
    case False
    then show ?thesis
      by (subst checksupport_loop.simps) auto
  next
    case True
    show ?thesis
    proof (cases "cmd (ops s ! i) = k")
      case True
      with \<open>i < length (ops s) \<and> \<not> no_query s \<and> tag (ops s ! i) \<noteq> None\<close>
      have "checksupport_loop bus s k i = query bus s i"
        by (subst checksupport_loop.simps) simp
      with True \<open>i < length (ops s) \<and> \<not> no_query s \<and> tag (ops s ! i) \<noteq> None\<close>
      show ?thesis
        by auto
    next
      case False
      with True have e: "checksupport_loop bus s k i = checksupport_loop bus s k (i + 1)"
        by (subst checksupport_loop.simps) simp
      from 1 [OF True False] show ?thesis
      proof
        assume "checksupport_loop bus s k (i + 1) = s"
        then show ?thesis
          unfolding e by simp
      next
        assume "\<exists>j. i + 1 \<le> j \<and> j < length (ops s) \<and> tag (ops s ! j) \<noteq> None \<and>
          cmd (ops s ! j) = k \<and> checksupport_loop bus s k (i + 1) = query bus s j"
        then obtain j where "i + 1 \<le> j" "j < length (ops s)" "tag (ops s ! j) \<noteq> None"
          "cmd (ops s ! j) = k" "checksupport_loop bus s k (i + 1) = query bus s j"
          by blast
        then have "i \<le> j \<and> j < length (ops s) \<and> tag (ops s ! j) \<noteq> None \<and>
          cmd (ops s ! j) = k \<and> checksupport_loop bus s k i = query bus s j"
          unfolding e by simp
        then show ?thesis
          by blast
      qed
    qed
  qed
qed

lemma checksupport_no_query: "no_query s \<Longrightarrow> checksupport bus s k = Inr (- 1, s)"
  by (simp add: checksupport_def)

lemma checksupport_cases:
  assumes "checksupport bus s k = Inr (r, s')"
  shows "s' = s \<or>
    (\<not> no_query s \<and> k \<le> 0xff \<and> op s (ucast k) = Null \<and>
      (\<exists>j. j < length (ops s) \<and> cmd (ops s ! j) = k \<and> s' = query bus s j))"
  using assms checksupport_loop_cases [of bus s k 0]
  by (auto simp: checksupport_def Let_def split: if_splits)

lemma ucast_u16_u8_inj:
  assumes "(k :: u16) \<le> 0xff" "k' \<le> 0xff" "(ucast k :: u8) = ucast k'"
  shows "k = k'"
proof -
  have "unat (ucast k :: u8) = unat k" "unat (ucast k' :: u8) = unat k'"
    using assms(1,2) by (simp_all add: unsigned_ucast_eq word_le_nat_alt take_bit_nat_eq_self)
  with assms(3) have "unat k = unat k'"
    by simp
  then show ?thesis
    by (simp add: word_unat_eq_iff)
qed

lemma checksupport_loop_index:
  "\<not> no_query s \<Longrightarrow>
   checksupport_loop bus s k i =
     (case catalog_index (drop i (ops s)) k i of None \<Rightarrow> s | Some j \<Rightarrow> query bus s j)"
proof (induction bus s k i rule: checksupport_loop.induct)
  case (1 bus s k i)
  show ?case
  proof (cases "i < length (ops s)")
    case False
    then show ?thesis
      by (subst checksupport_loop.simps) simp
  next
    case True
    then have d: "drop i (ops s) = ops s ! i # drop (Suc i) (ops s)"
      by (simp add: Cons_nth_drop_Suc)
    show ?thesis
    proof (cases "tag (ops s ! i) \<noteq> None \<and> cmd (ops s ! i) \<noteq> k")
      case False
      with True 1(2) show ?thesis
        by (subst checksupport_loop.simps) (auto simp: d)
    next
      case c: True
      with True 1(2) have "checksupport_loop bus s k i = checksupport_loop bus s k (i + 1)"
        by (subst checksupport_loop.simps) simp
      also have "\<dots> = (case catalog_index (drop (i + 1) (ops s)) k (i + 1) of
          None \<Rightarrow> s | Some j \<Rightarrow> query bus s j)"
        using 1(1) True 1(2) c by simp
      finally show ?thesis
        using c by (auto simp: d)
    qed
  qed
qed

section \<open>Block reads\<close>

text \<open>
  Claim C5 (with PEC enabled, a block read disables PEC before the length read and
  restores it right after, whether the length read succeeds or fails). On the failure
  path the source returns before the restore: with PEC in use and an adapter whose
  transfers fail, the requests of a block read are the PEC switch-off and the byte
  read, and nothing switches PEC on again.
\<close>

theorem read_block_pec_left_off:
  "pmbus_read_block bus_pec_only ((pmbus_dev_init I2C_FUNC_I2C 0x10)\<lparr>use_pec := True\<rparr>)
     0x99 255 (Some (\<lambda>k. 0)) =
   (Inl 5, Some (\<lambda>k. 0),
    (pmbus_dev_init I2C_FUNC_I2C 0x10)
      \<lparr>use_pec := True, trace := [I2C_PEC False, SMBUS_READ_BYTE_DATA 0x99]\<rparr>)"
  by (simp add: pmbus_read_block_def pmbus_read_byte_data_def ioctl_def pmbus_dev_init_def
      is_pmb_extended_def is_pmb_8bit_def bus_pec_only_def Let_def)

text \<open>
  Claim C6: when the length byte read first is 40, the adapter can send raw messages,
  the raw exchange succeeds and its length byte is 40 again, a block read into a
  20-byte buffer returns \<^verbatim>\<open>-E2BIG\<close>, the first 20 bytes of the buffer are the first 20
  data bytes of the reply, and the rest of the buffer is untouched.
\<close>

theorem read_block_size_exceeded:
  assumes "\<not> is_pmb_extended k" "is_pmb_8bit k" "funcs s AND I2C_FUNC_I2C \<noteq> 0"
    and "bus (trace s @ (if use_pec s then [I2C_PEC False] else []) @
              [SMBUS_READ_BYTE_DATA (ucast k)]) = Done d0" "d0 0 = 40"
    and "bus (trace s @ (if use_pec s then [I2C_PEC False] else []) @
              [SMBUS_READ_BYTE_DATA (ucast k)] @ (if use_pec s then [I2C_PEC True] else []) @
              [I2C_RDWR [ucast (k AND 0x0ff)] 41]) = Done d1" "d1 0 = 40"
  shows "\<exists>rb' s'. pmbus_read_block bus s k 20 (Some rb) = (Inl E2BIG, Some rb', s') \<and>
           (\<forall>j<20. rb' j = d1 (j + 1)) \<and> (\<forall>j\<ge>20. rb' j = rb j)"
  using assms
  by (auto simp: pmbus_read_block_def pmbus_read_byte_data_def ioctl_def Let_def
      read_block_try_i2c_def I2C_SMBUS_BLOCK_MAX_def memcpy_def)

theorem read_block_size_exceeded_witness:
  "fst (pmbus_read_block bus_block40 (pmbus_dev_init I2C_FUNC_I2C 0x10) 0x9a 20
         (Some (\<lambda>k. 0))) = Inl E2BIG \<and>
   map (the (fst (snd (pmbus_read_block bus_block40 (pmbus_dev_init I2C_FUNC_I2C 0x10) 0x9a 20
         (Some (\<lambda>k. 0)))))) [0, 1, 19, 20, 21] = [1, 2, 20, 0, 0]"
proof -
  let ?s = "pmbus_dev_init I2C_FUNC_I2C 0x10"
  let ?d = "\<lambda>k::nat. if k = 0 then 40 else (of_nat k :: u8)"
  have "\<exists>rb' s'. pmbus_read_block bus_block40 ?s 0x9a 20 (Some (\<lambda>k. 0)) =
      (Inl E2BIG, Some rb', s') \<and> (\<forall>j<20. rb' j = ?d (j + 1)) \<and> (\<forall>j\<ge>20. rb' j = 0)"
    by (rule read_block_size_exceeded [where ?d0.0 = ?d])
      (simp_all add: is_pmb_extended_def is_pmb_8bit_def pmbus_dev_init_def I2C_FUNC_I2C_def
        bus_block40_def)
  then obtain rb' s' where
    r: "pmbus_read_block bus_block40 ?s 0x9a 20 (Some (\<lambda>k. 0)) = (Inl E2BIG, Some rb', s')"
    and lo: "\<forall>j<20. rb' j = ?d (j + 1)" and hi: "\<forall>j\<ge>20. rb' j = 0"
    by blast
  have "rb' 0 = 1" "rb' 1 = 2" "rb' 19 = 20" "rb' 20 = 0" "rb' 21 = 0"
    using lo hi by simp_all
  then show ?thesis
    by (simp add: r)
qed

section \<open>Coefficients\<close>

text \<open>
  Claim C7: when the exchange of \<^verbatim>\<open>coefficients\<close> fails, or the length byte of the
  response is not 5, the table of descriptors is what it was before the call, so the
  descriptor's \<open>m\<close>, \<open>b\<close>, \<open>R\<close> and \<open>valid\<close> keep their values; they are assigned
  only on a response of length 5.
\<close>

theorem coefficients_failed_exchange:
  assumes "case fst (coefficients_xfer bus s i (read \<noteq> 0)) of
             Failed e \<Rightarrow> True | Done block \<Rightarrow> block 0 \<noteq> 5"
  shows "ops (coefficients bus s i read) = ops s"
  using assms
  by (auto simp: coefficients_def coefficients_xfer_def ioctl_def Let_def
      split: prod.splits reply.splits if_splits)

theorem coefficients_failed_exchange_witness:
  "(case fst (coefficients_xfer bus_short (pmbus_dev_init I2C_FUNC_I2C 0x10) 23 (1 \<noteq> (0::int))) of
      Failed e \<Rightarrow> True | Done block \<Rightarrow> block 0 \<noteq> 5) \<and>
   ops (coefficients bus_short (pmbus_dev_init I2C_FUNC_I2C 0x10) 23 1) =
     ops (pmbus_dev_init I2C_FUNC_I2C 0x10)"
proof -
  have h: "case fst (coefficients_xfer bus_short (pmbus_dev_init I2C_FUNC_I2C 0x10) 23
      (1 \<noteq> (0::int))) of Failed e \<Rightarrow> True | Done block \<Rightarrow> block 0 \<noteq> 5"
    by (simp add: coefficients_xfer_def ioctl_def bus_short_def Let_def)
  from coefficients_failed_exchange [OF h] h show ?thesis
    by blast
qed

section \<open>The value decoders\<close>

subsection \<open>LINEAR\<close>

text \<open>
  Claim C2 (LINEAR11 decoding is mantissa times two to the exponent, both fields in
  two's complement, for every raw word). The decoder of the source does not compute
  that value: it masks the mantissa to ten bits and negates it when bit 10 is set, it
  tests the positive exponents with the mask \<open>0x7100\<close>, and it reduces the negative
  exponent modulo 16. The three raw words below have mantissa 1 and exponent 1,
  mantissa \<open>-1\<close> and exponent 0, mantissa 1 and exponent \<open>-16\<close>; the source decodes
  them to 1, \<open>-1023\<close> and 1, where LINEAR11 gives 2, \<open>-1\<close> and \<open>2^-16\<close>.
\<close>

theorem linear_decode_not_linear11:
  "linear_decode (uint (0x0801 :: u16)) = 1 \<and> linear11_spec 0x0801 = 2 \<and>
   linear_decode (uint (0x07ff :: u16)) = - 1023 \<and> linear11_spec 0x07ff = - 1 \<and>
   linear_decode (uint (0x8001 :: u16)) = 1 \<and> linear11_spec 0x8001 = 1 / 65536"
  by (simp add: linear_decode_def linear11_spec_def linear11_mantissa_def
      linear11_exponent_def)

subsection \<open>Rounding to \<^verbatim>\<open>double\<close>\<close>

text \<open>
  \<open>expo x\<close> is the binary exponent of \<open>x\<close>, and rounding moves a number by at most half
  a unit in the last place: in the normal range, by at most \<open>2^-53\<close> of its magnitude.
  The rounded number is a multiple of that unit.
\<close>

lemma expo_up_bounds: "1 \<le> x \<Longrightarrow> 2 powi expo_up x \<le> x \<and> x < 2 powi (expo_up x + 1)"
proof (induction x rule: expo_up.induct)
  case (1 x)
  show ?case
  proof (cases "x < 2")
    case True
    with 1(2) show ?thesis
      by (simp add: expo_up.simps [of x])
  next
    case False
    then have "1 \<le> x / 2"
      by simp
    with 1(1) False have ih: "2 powi expo_up (x / 2) \<le> x / 2 \<and> x / 2 < 2 powi (expo_up (x / 2) + 1)"
      by simp
    have e: "expo_up x = expo_up (x / 2) + 1"
      using False by (simp add: expo_up.simps [of x])
    show ?thesis
      using ih unfolding e by (simp add: power_int_add)
  qed
qed

lemma expo_down_bounds:
  "0 < x \<Longrightarrow> x < 1 \<Longrightarrow> 2 powi expo_down x \<le> x \<and> x < 2 powi (expo_down x + 1)"
proof (induction x rule: expo_down.induct)
  case (1 x)
  have e: "expo_down x = expo_down (2 * x) - 1"
    using 1(2,3) by (simp add: expo_down.simps [of x])
  show ?case
  proof (cases "2 * x < 1")
    case True
    with 1 have ih: "2 powi expo_down (2 * x) \<le> 2 * x \<and> 2 * x < 2 powi (expo_down (2 * x) + 1)"
      by simp
    show ?thesis
      using ih unfolding e by (simp add: power_int_add power_int_diff)
  next
    case False
    then have "expo_down (2 * x) = 0"
      by (simp add: expo_down.simps [of "2 * x"])
    with False 1(3) show ?thesis
      unfolding e by (simp add: power_int_minus)
  qed
qed

lemma expo_bounds: "x \<noteq> 0 \<Longrightarrow> 2 powi expo x \<le> \<bar>x\<bar> \<and> \<bar>x\<bar> < 2 powi (expo x + 1)"
  using expo_up_bounds [of "\<bar>x\<bar>"] expo_down_bounds [of "\<bar>x\<bar>"]
  by (simp add: expo_def)

lemma round_even_err: "\<bar>of_int (round_even y) - y\<bar> \<le> 1 / 2"
  unfolding round_even_def Let_def
  by (auto simp: abs_le_iff)


lemma expo_ge: "x \<noteq> 0 \<Longrightarrow> 2 powi k \<le> \<bar>x\<bar> \<Longrightarrow> k \<le> expo x"
proof (rule ccontr)
  assume x: "x \<noteq> 0" "2 powi k \<le> \<bar>x\<bar>" and "\<not> k \<le> expo x"
  then have "expo x + 1 \<le> k"
    by simp
  then have "(2::real) powi (expo x + 1) \<le> 2 powi k"
    by (rule power_int_increasing) simp
  with expo_bounds [OF x(1)] x(2) show False
    by simp
qed

lemma expo_less: "x \<noteq> 0 \<Longrightarrow> \<bar>x\<bar> < 2 powi k \<Longrightarrow> expo x < k"
proof (rule ccontr)
  assume x: "x \<noteq> 0" "\<bar>x\<bar> < 2 powi k" and "\<not> expo x < k"
  then have "k \<le> expo x"
    by simp
  then have "(2::real) powi k \<le> 2 powi expo x"
    by (rule power_int_increasing) simp
  with expo_bounds [OF x(1)] x(2) show False
    by simp
qed

lemma round_even_int: "round_even (of_int n) = n"
  by (simp add: round_even_def)

lemma double_round_zero: "double_round 0 = Finite 0"
  by (simp add: double_round_def round_even_def Let_def)

lemma double_round_normal:
  assumes "2 powi (- 1022) \<le> \<bar>x\<bar>" "\<bar>x\<bar> < 2 powi 1023"
  shows "\<exists>y. double_round x = Finite y \<and> \<bar>y - x\<bar> \<le> 2 powi (- 53) * \<bar>x\<bar> \<and>
    (\<exists>n :: int. y = of_int n * 2 powi (expo x - 52))"
proof -
  from assms(1) have x: "x \<noteq> 0"
    by auto
  define ulp :: real where "ulp = 2 powi (expo x - 52)"
  define y where "y = of_int (round_even (x / ulp)) * ulp"
  have e: "- 1022 \<le> expo x" "expo x < 1023"
    using expo_ge [OF x assms(1)] expo_less [OF x assms(2)] by simp_all
  have ulp: "0 < ulp"
    by (simp add: ulp_def zero_less_power_int)
  have "y - x = (of_int (round_even (x / ulp)) - x / ulp) * ulp"
    using ulp by (simp add: y_def left_diff_distrib)
  then have "\<bar>y - x\<bar> = \<bar>of_int (round_even (x / ulp)) - x / ulp\<bar> * ulp"
    using ulp by (simp add: abs_mult)
  also have "\<dots> \<le> 1 / 2 * ulp"
    using ulp by (intro mult_right_mono round_even_err) simp
  also have "\<dots> = 2 powi (- 53) * 2 powi expo x"
    by (simp add: ulp_def power_int_diff power_int_minus)
  also have "\<dots> \<le> 2 powi (- 53) * \<bar>x\<bar>"
    using expo_bounds [OF x] by (intro mult_left_mono) simp_all
  finally have err: "\<bar>y - x\<bar> \<le> 2 powi (- 53) * \<bar>x\<bar>" .
  then have "\<bar>y\<bar> \<le> \<bar>x\<bar> + 2 powi (- 53) * \<bar>x\<bar>"
    by linarith
  also have "\<dots> \<le> 2 * \<bar>x\<bar>"
    by (simp add: power_int_minus)
  also have "\<dots> < 2 * 2 powi 1023"
    using assms(2) by simp
  finally have "\<not> 2 powi 1024 \<le> \<bar>y\<bar>"
    by simp
  then have "double_round x = Finite y"
    using e(1) by (simp add: double_round_def Let_def y_def ulp_def max_def)
  with err show ?thesis
    by (auto simp: y_def ulp_def)
qed


lemma grid_coarsen:
  assumes "k \<le> j"
  shows "(of_int n :: real) * 2 powi j = of_int (n * 2 ^ nat (j - k)) * 2 powi k"
proof -
  have "(2::real) powi j = 2 powi (j - k) * 2 powi k"
    by (simp add: power_int_add [symmetric])
  also have "(2::real) powi (j - k) = 2 ^ nat (j - k)"
    using assms by (simp add: power_int_def)
  finally show ?thesis
    by simp
qed

lemma round_rel:
  assumes "x = 0 \<or> 2 powi (- 1000) \<le> \<bar>x\<bar>" "\<bar>x\<bar> \<le> 2 powi 1000"
  obtains y where "double_round x = Finite y" "\<bar>y - x\<bar> \<le> 2 powi (- 53) * \<bar>x\<bar>"
proof (cases "x = 0")
  case True
  then show ?thesis
    using that [of 0] by (simp add: double_round_zero)
next
  case False
  with assms(1) have "2 powi (- 1000) \<le> \<bar>x\<bar>"
    by simp
  moreover have "(2::real) powi (- 1022) \<le> 2 powi (- 1000)"
    by (rule power_int_increasing) simp_all
  ultimately have lo: "2 powi (- 1022) \<le> \<bar>x\<bar>"
    by linarith
  have "(2::real) powi 1000 < 2 powi 1023"
    by (rule power_int_strict_increasing) simp_all
  with assms(2) have hi: "\<bar>x\<bar> < 2 powi 1023"
    by linarith
  from double_round_normal [OF lo hi] that show ?thesis
    by blast
qed

lemma round_grid:
  assumes "x = 0 \<or> 2 powi (- 750) \<le> \<bar>x\<bar>" "\<bar>x\<bar> \<le> 2 powi 750"
  obtains y :: real and k :: int where "double_round x = Finite y" "\<bar>y - x\<bar> \<le> 2 powi (- 53) * \<bar>x\<bar>"
    "y = of_int k * 2 powi (- 802)"
proof (cases "x = 0")
  case True
  then show ?thesis
    using that [of 0 0] by (simp add: double_round_zero)
next
  case False
  with assms(1) have x: "2 powi (- 750) \<le> \<bar>x\<bar>"
    by simp
  moreover have "(2::real) powi (- 1022) \<le> 2 powi (- 750)"
    by (rule power_int_increasing) simp_all
  ultimately have lo: "2 powi (- 1022) \<le> \<bar>x\<bar>"
    by linarith
  have "(2::real) powi 750 < 2 powi 1023"
    by (rule power_int_strict_increasing) simp_all
  with assms(2) have hi: "\<bar>x\<bar> < 2 powi 1023"
    by linarith
  from double_round_normal [OF lo hi] obtain y n
    where y: "double_round x = Finite y" "\<bar>y - x\<bar> \<le> 2 powi (- 53) * \<bar>x\<bar>"
      "y = of_int n * 2 powi (expo x - 52)"
    by blast
  from expo_ge [OF False x] have "- 802 \<le> expo x - 52"
    by simp
  from grid_coarsen [OF this, of n] y(3)
  have "y = of_int (n * 2 ^ nat (expo x - 52 - - 802)) * 2 powi (- 802)"
    by simp
  with y(1,2) that show ?thesis
    by blast
qed

text \<open>Evaluation of the rounding at a given number.\<close>

lemma expo_up_eval:
  "x < 2 \<Longrightarrow> expo_up x = 0"
  "2 \<le> x \<Longrightarrow> expo_up x = expo_up (x / 2) + 1"
  by (simp_all add: expo_up.simps [of x])

lemma expo_down_eval:
  "0 < x \<Longrightarrow> x < 1 \<Longrightarrow> expo_down x = expo_down (2 * x) - 1"
  "1 \<le> x \<Longrightarrow> expo_down x = 0"
  "x \<le> 0 \<Longrightarrow> expo_down x = 0"
  by (simp_all add: expo_down.simps [of x])

lemmas double_eval = double_round_def expo_def round_even_def Let_def expo_up_eval expo_down_eval

subsection \<open>DIRECT\<close>

text \<open>
  The scaling loops: after \<open>n\<close> rounds the relative error is at most
  \<open>(1 + 2^-53)^n - 1\<close>, which is at most \<open>2^-45\<close> for the 128 rounds that an 8-bit
  exponent allows. No intermediate result leaves the normal range.
\<close>

lemma scale_down_err:
  fixes v :: real
  assumes "v = 0 \<or> (2 powi (- 700) * 20 ^ Suc n \<le> \<bar>v\<bar> \<and> \<bar>v\<bar> \<le> 2 powi 700)"
  shows "\<exists>v'. direct_scale_down (int (Suc n)) (Finite v) = Finite v' \<and>
      \<bar>v' - v / 10 ^ Suc n\<bar> \<le> ((1 + 2 powi (- 53)) ^ Suc n - 1) * \<bar>v / 10 ^ Suc n\<bar> \<and>
      (\<exists>k :: int. v' = of_int k * 2 powi (- 802))"
  using assms
proof (induction n arbitrary: v)
  case 0
  have lo: "(2::real) powi (- 750) \<le> 2 powi (- 700)"
    by (rule power_int_increasing) simp_all
  have hi: "(2::real) powi 700 \<le> 2 powi 750"
    by (rule power_int_increasing) simp_all
  have "v / 10 = 0 \<or> 2 powi (- 750) \<le> \<bar>v / 10\<bar>" "\<bar>v / 10\<bar> \<le> 2 powi 750"
    using 0 lo hi by auto
  then obtain y k where y: "double_round (v / 10) = Finite y"
    "\<bar>y - v / 10\<bar> \<le> 2 powi (- 53) * \<bar>v / 10\<bar>" "y = of_int k * 2 powi (- 802)"
    by (rule round_grid)
  have d: "direct_scale_down (int (Suc 0)) (Finite v) = Finite y"
    by (simp add: direct_scale_down.simps [of 1] y(1))
  show ?case
  proof (intro exI conjI)
    show "direct_scale_down (int (Suc 0)) (Finite v) = Finite y"
      by (rule d)
    show "\<bar>y - v / 10 ^ Suc 0\<bar> \<le> ((1 + 2 powi (- 53)) ^ Suc 0 - 1) * \<bar>v / 10 ^ Suc 0\<bar>"
      using y(2) by simp
    show "y = of_int k * 2 powi (- 802)"
      by (rule y(3))
  qed
next
  case (Suc n)
  define u :: real where "u = 2 powi (- 53)"
  have u: "0 \<le> u" "u \<le> 1 / 2"
    by (simp_all add: u_def power_int_minus)
  define T :: real where "T = 2 powi (- 700) * 20 ^ Suc n"
  define L :: real where "L = 2 powi (- 700)"
  define H :: real where "H = 2 powi 700"
  have "(1::real) \<le> 20 ^ Suc n"
    by (rule one_le_power) simp
  then have "L * 1 \<le> L * (20::real) ^ Suc n"
    unfolding L_def by (intro mult_left_mono) simp_all
  then have T: "L \<le> T"
    by (simp add: T_def L_def)
  have lo: "2 powi (- 750) \<le> L"
    unfolding L_def by (rule power_int_increasing) simp_all
  have hi: "H \<le> 2 powi 750"
    unfolding H_def by (rule power_int_increasing) simp_all
  have L: "0 < L"
    by (simp add: L_def zero_less_power_int)
  from Suc.prems have v: "v = 0 \<or> (20 * T \<le> \<bar>v\<bar> \<and> \<bar>v\<bar> \<le> H)"
    by (simp add: T_def H_def)
  have a10: "\<bar>v / 10\<bar> = \<bar>v\<bar> / 10"
    by simp
  have "v / 10 = 0 \<or> 2 powi (- 750) \<le> \<bar>v / 10\<bar>"
  proof (cases "v = 0")
    case False
    with v T lo L have "2 powi (- 750) \<le> \<bar>v\<bar> / 10"
      by linarith
    then show ?thesis
      by (simp only: a10) simp
  qed simp
  moreover have "\<bar>v / 10\<bar> \<le> 2 powi 750"
  proof (cases "v = 0")
    case False
    with v hi have "\<bar>v\<bar> / 10 \<le> 2 powi 750"
      by linarith
    then show ?thesis
      by (simp only: a10)
  next
    case True
    then show ?thesis
      by (simp add: zero_le_power_int)
  qed
  ultimately obtain y k where y: "double_round (v / 10) = Finite y"
    "\<bar>y - v / 10\<bar> \<le> u * \<bar>v / 10\<bar>" "y = of_int k * 2 powi (- 802)"
    unfolding u_def by (rule round_grid)
  have "y = 0 \<or> (T \<le> \<bar>y\<bar> \<and> \<bar>y\<bar> \<le> H)"
  proof (cases "v = 0")
    case True
    with y(2) show ?thesis
      by simp
  next
    case False
    with v have r: "20 * T \<le> \<bar>v\<bar>" "\<bar>v\<bar> \<le> H"
      by simp_all
    have "u * \<bar>v / 10\<bar> \<le> 1 / 2 * \<bar>v / 10\<bar>"
      using u by (intro mult_right_mono) simp_all
    with y(2) have e: "\<bar>y - v / 10\<bar> \<le> \<bar>v\<bar> / 20"
      unfolding a10 by linarith
    from e r(1) have "T \<le> \<bar>y\<bar>"
      by linarith
    moreover from e r(2) have "\<bar>y\<bar> \<le> H"
      by linarith
    ultimately show ?thesis
      by simp
  qed
  then have "y = 0 \<or> (2 powi (- 700) * 20 ^ Suc n \<le> \<bar>y\<bar> \<and> \<bar>y\<bar> \<le> 2 powi 700)"
    by (simp only: T_def H_def)
  from Suc.IH [OF this] obtain v' where v': "direct_scale_down (int (Suc n)) (Finite y) = Finite v'"
    "\<bar>v' - y / 10 ^ Suc n\<bar> \<le> ((1 + u) ^ Suc n - 1) * \<bar>y / 10 ^ Suc n\<bar>"
    "\<exists>k :: int. v' = of_int k * 2 powi (- 802)"
    unfolding u_def by blast
  have "direct_scale_down (int (Suc (Suc n))) (Finite v) =
      direct_scale_down (int (Suc n)) (Finite y)"
    by (subst direct_scale_down.simps) (simp add: y(1) Let_def)
  with v'(1) have d: "direct_scale_down (int (Suc (Suc n))) (Finite v) = Finite v'"
    by simp
  define P where "P = (1 + u) ^ Suc n"
  define V where "V = v / 10 ^ Suc (Suc n)"
  define V1 where "V1 = y / 10 ^ Suc n"
  have P: "1 \<le> P"
    unfolding P_def using u by (intro one_le_power) simp
  have "V1 - V = (y - v / 10) / 10 ^ Suc n"
    by (simp add: V1_def V_def field_simps)
  then have "\<bar>V1 - V\<bar> = \<bar>y - v / 10\<bar> / 10 ^ Suc n"
    by (simp add: abs_divide)
  also have "\<dots> \<le> u * \<bar>v / 10\<bar> / 10 ^ Suc n"
    using y(2) by (intro divide_right_mono) simp_all
  also have "\<dots> = u * \<bar>V\<bar>"
    by (simp add: V_def abs_divide)
  finally have a: "\<bar>V1 - V\<bar> \<le> u * \<bar>V\<bar>" .
  then have "\<bar>V1\<bar> \<le> (1 + u) * \<bar>V\<bar>"
    by (simp add: algebra_simps)
  then have "(P - 1) * \<bar>V1\<bar> \<le> (P - 1) * ((1 + u) * \<bar>V\<bar>)"
    using P by (intro mult_left_mono) simp_all
  with v'(2) have "\<bar>v' - V1\<bar> \<le> (P - 1) * ((1 + u) * \<bar>V\<bar>)"
    by (simp add: P_def V1_def)
  with a have "\<bar>v' - V\<bar> \<le> (P - 1) * ((1 + u) * \<bar>V\<bar>) + u * \<bar>V\<bar>"
    by linarith
  also have "\<dots> = ((1 + u) ^ Suc (Suc n) - 1) * \<bar>V\<bar>"
    by (simp add: P_def algebra_simps)
  finally have "\<bar>v' - V\<bar> \<le> ((1 + u) ^ Suc (Suc n) - 1) * \<bar>V\<bar>" .
  with d v'(3) show ?case
    unfolding V_def u_def by blast
qed

lemma scale_up_err:
  fixes v :: real
  assumes "v = 0 \<or> (2 powi (- 700) \<le> \<bar>v\<bar> \<and> \<bar>v\<bar> * 20 ^ Suc n \<le> 2 powi 700)"
  shows "\<exists>v'. direct_scale_up (- int (Suc n)) (Finite v) = Finite v' \<and>
      \<bar>v' - v * 10 ^ Suc n\<bar> \<le> ((1 + 2 powi (- 53)) ^ Suc n - 1) * \<bar>v * 10 ^ Suc n\<bar> \<and>
      (\<exists>k :: int. v' = of_int k * 2 powi (- 802))"
  using assms
proof (induction n arbitrary: v)
  case 0
  have lo: "(2::real) powi (- 750) \<le> 2 powi (- 700)"
    by (rule power_int_increasing) simp_all
  have hi: "(2::real) powi 700 \<le> 2 powi 750"
    by (rule power_int_increasing) simp_all
  have "v * 10 = 0 \<or> 2 powi (- 750) \<le> \<bar>v * 10\<bar>" "\<bar>v * 10\<bar> \<le> 2 powi 750"
    using 0 lo hi by auto
  then obtain y k where y: "double_round (v * 10) = Finite y"
    "\<bar>y - v * 10\<bar> \<le> 2 powi (- 53) * \<bar>v * 10\<bar>" "y = of_int k * 2 powi (- 802)"
    by (rule round_grid)
  have d: "direct_scale_up (- int (Suc 0)) (Finite v) = Finite y"
    by (simp add: direct_scale_up.simps [of "- 1"] y(1))
  show ?case
  proof (intro exI conjI)
    show "direct_scale_up (- int (Suc 0)) (Finite v) = Finite y"
      by (rule d)
    show "\<bar>y - v * 10 ^ Suc 0\<bar> \<le> ((1 + 2 powi (- 53)) ^ Suc 0 - 1) * \<bar>v * 10 ^ Suc 0\<bar>"
      using y(2) by simp
    show "y = of_int k * 2 powi (- 802)"
      by (rule y(3))
  qed
next
  case (Suc n)
  define u :: real where "u = 2 powi (- 53)"
  have u: "0 \<le> u" "u \<le> 1 / 2"
    by (simp_all add: u_def power_int_minus)
  define T :: real where "T = 20 ^ Suc n"
  define L :: real where "L = 2 powi (- 700)"
  define H :: real where "H = 2 powi 700"
  have T: "1 \<le> T"
    unfolding T_def by (rule one_le_power) simp
  have lo: "2 powi (- 750) \<le> L"
    unfolding L_def by (rule power_int_increasing) simp_all
  have hi: "H \<le> 2 powi 750"
    unfolding H_def by (rule power_int_increasing) simp_all
  from Suc.prems have v: "v = 0 \<or> (L \<le> \<bar>v\<bar> \<and> 20 * \<bar>v\<bar> * T \<le> H)"
    by (simp add: T_def L_def H_def mult_ac)
  have vT: "20 * \<bar>v\<bar> * 1 \<le> 20 * \<bar>v\<bar> * T"
    using T by (intro mult_left_mono) simp_all
  have a10: "\<bar>v * 10\<bar> = 10 * \<bar>v\<bar>"
    by simp
  have "v * 10 = 0 \<or> 2 powi (- 750) \<le> \<bar>v * 10\<bar>"
  proof (cases "v = 0")
    case False
    with v lo have "2 powi (- 750) \<le> 10 * \<bar>v\<bar>"
      by linarith
    then show ?thesis
      by (simp only: a10) simp
  qed simp
  moreover have "\<bar>v * 10\<bar> \<le> 2 powi 750"
  proof (cases "v = 0")
    case False
    with v hi vT have "10 * \<bar>v\<bar> \<le> 2 powi 750"
      by linarith
    then show ?thesis
      by (simp only: a10)
  next
    case True
    then show ?thesis
      by (simp add: zero_le_power_int)
  qed
  ultimately obtain y k where y: "double_round (v * 10) = Finite y"
    "\<bar>y - v * 10\<bar> \<le> u * \<bar>v * 10\<bar>" "y = of_int k * 2 powi (- 802)"
    unfolding u_def by (rule round_grid)
  have "y = 0 \<or> (L \<le> \<bar>y\<bar> \<and> \<bar>y\<bar> * T \<le> H)"
  proof (cases "v = 0")
    case True
    with y(2) show ?thesis
      by simp
  next
    case False
    with v have r: "L \<le> \<bar>v\<bar>" "20 * \<bar>v\<bar> * T \<le> H"
      by simp_all
    have "u * \<bar>v * 10\<bar> \<le> 1 / 2 * \<bar>v * 10\<bar>"
      using u by (intro mult_right_mono) simp_all
    with y(2) have e: "\<bar>y - v * 10\<bar> \<le> 5 * \<bar>v\<bar>"
      unfolding a10 by linarith
    then have b: "5 * \<bar>v\<bar> \<le> \<bar>y\<bar>" "\<bar>y\<bar> \<le> 20 * \<bar>v\<bar>"
      by linarith+
    from b(2) have "\<bar>y\<bar> * T \<le> 20 * \<bar>v\<bar> * T"
      using T by (intro mult_right_mono) simp_all
    with r(2) have "\<bar>y\<bar> * T \<le> H"
      by linarith
    moreover from b(1) r(1) have "L \<le> \<bar>y\<bar>"
      by linarith
    ultimately show ?thesis
      by simp
  qed
  then have "y = 0 \<or> (2 powi (- 700) \<le> \<bar>y\<bar> \<and> \<bar>y\<bar> * 20 ^ Suc n \<le> 2 powi 700)"
    by (simp only: T_def L_def H_def)
  from Suc.IH [OF this] obtain v' where v': "direct_scale_up (- int (Suc n)) (Finite y) = Finite v'"
    "\<bar>v' - y * 10 ^ Suc n\<bar> \<le> ((1 + u) ^ Suc n - 1) * \<bar>y * 10 ^ Suc n\<bar>"
    "\<exists>k :: int. v' = of_int k * 2 powi (- 802)"
    unfolding u_def by blast
  have "direct_scale_up (- int (Suc (Suc n))) (Finite v) =
      direct_scale_up (- int (Suc n)) (Finite y)"
    by (subst direct_scale_up.simps) (simp add: y(1) Let_def)
  with v'(1) have d: "direct_scale_up (- int (Suc (Suc n))) (Finite v) = Finite v'"
    by simp
  define P where "P = (1 + u) ^ Suc n"
  define V where "V = v * 10 ^ Suc (Suc n)"
  define V1 where "V1 = y * 10 ^ Suc n"
  have P: "1 \<le> P"
    unfolding P_def using u by (intro one_le_power) simp
  have "V1 - V = (y - v * 10) * 10 ^ Suc n"
    by (simp add: V1_def V_def field_simps)
  then have "\<bar>V1 - V\<bar> = \<bar>y - v * 10\<bar> * 10 ^ Suc n"
    by (simp add: abs_mult)
  also have "\<dots> \<le> u * \<bar>v * 10\<bar> * 10 ^ Suc n"
    using y(2) by (intro mult_right_mono) simp_all
  also have "\<dots> = u * \<bar>V\<bar>"
    by (simp add: V_def abs_mult)
  finally have a: "\<bar>V1 - V\<bar> \<le> u * \<bar>V\<bar>" .
  then have "\<bar>V1\<bar> \<le> (1 + u) * \<bar>V\<bar>"
    by (simp add: algebra_simps)
  then have "(P - 1) * \<bar>V1\<bar> \<le> (P - 1) * ((1 + u) * \<bar>V\<bar>)"
    using P by (intro mult_left_mono) simp_all
  with v'(2) have "\<bar>v' - V1\<bar> \<le> (P - 1) * ((1 + u) * \<bar>V\<bar>)"
    by (simp add: P_def V1_def)
  with a have "\<bar>v' - V\<bar> \<le> (P - 1) * ((1 + u) * \<bar>V\<bar>) + u * \<bar>V\<bar>"
    by linarith
  also have "\<dots> = ((1 + u) ^ Suc (Suc n) - 1) * \<bar>V\<bar>"
    by (simp add: P_def algebra_simps)
  finally have "\<bar>v' - V\<bar> \<le> ((1 + u) ^ Suc (Suc n) - 1) * \<bar>V\<bar>" .
  with d v'(3) show ?case
    unfolding V_def u_def by blast
qed

lemma pow_lin:
  fixes u :: real
  assumes "0 \<le> u"
  shows "2 * real n * u \<le> 1 \<Longrightarrow> (1 + u) ^ n \<le> 1 + 2 * real n * u"
proof (induction n)
  case 0
  show ?case
    by simp
next
  case (Suc n)
  have nu: "0 \<le> real n * u"
    using assms by simp
  from Suc.prems have s: "2 * real n * u + 2 * u \<le> 1"
    by (simp add: algebra_simps)
  with assms have "2 * real n * u \<le> 1"
    by linarith
  with Suc.IH have ih: "(1 + u) ^ n \<le> 1 + 2 * real n * u"
    by simp
  have "(1 + u) ^ Suc n = (1 + u) * (1 + u) ^ n"
    by simp
  also have "\<dots> \<le> (1 + u) * (1 + 2 * real n * u)"
    using ih assms by (intro mult_left_mono) simp_all
  also have "\<dots> = 1 + 2 * real n * u + u + (2 * real n * u) * u"
    by (simp add: algebra_simps)
  also have "(2 * real n * u) * u \<le> 1 * u"
    using s assms nu by (intro mult_right_mono) linarith+
  finally show ?case
    by (simp add: algebra_simps)
qed

lemma pow_err_bound:
  assumes "n \<le> 128"
  shows "(1 + 2 powi (- 53)) ^ n - 1 \<le> (2 powi (- 45) :: real)"
proof -
  define u :: real where "u = 2 powi (- 53)"
  have u: "0 \<le> u" "256 * u = 2 powi (- 45)"
    by (simp_all add: u_def power_int_minus)
  have "real n \<le> 128"
    using assms by simp
  then have "2 * real n * u \<le> 2 * 128 * u"
    using u(1) by (intro mult_right_mono mult_left_mono) simp_all
  then have n: "2 * real n * u \<le> 2 powi (- 45)"
    using u(2) by simp
  have "(2 powi (- 45) :: real) \<le> 1"
    by (simp add: power_int_minus field_simps)
  with n have "2 * real n * u \<le> 1"
    by linarith
  from pow_lin [OF u(1) this] n show ?thesis
    unfolding u_def by linarith
qed

lemma scaled_err:
  assumes "\<bar>raw\<bar> \<le> 32768" "\<bar>r\<bar> \<le> 128"
  shows "\<exists>v'. (if r < 0 then direct_scale_up r (Finite (of_int raw))
               else if 0 < r then direct_scale_down r (Finite (of_int raw))
               else Finite (of_int raw)) = Finite v' \<and>
      \<bar>v' - of_int raw / 10 powi r\<bar> \<le> 2 powi (- 45) * \<bar>of_int raw / 10 powi r :: real\<bar> \<and>
      \<bar>of_int raw / 10 powi r :: real\<bar> \<le> 2 powi 600 \<and>
      (\<exists>k :: int. v' = of_int k * 2 powi (- 802))"
proof -
  define v :: real where "v = of_int raw"
  have v: "v = 0 \<or> 1 \<le> \<bar>v\<bar>" "\<bar>v\<bar> \<le> 32768"
    using assms(1) unfolding v_def by (auto simp flip: of_int_abs)
  consider "r = 0" | n where "r = int (Suc n)" "Suc n \<le> 128" | n where "r = - int (Suc n)" "Suc n \<le> 128"
  proof (cases "0 < r")
    case True
    then have "r = int (Suc (nat r - 1))" "Suc (nat r - 1) \<le> 128"
      using assms(2) by simp_all
    then show ?thesis
      using that by blast
  next
    case False
    show ?thesis
    proof (cases "r = 0")
      case False
      with \<open>\<not> 0 < r\<close> have "r = - int (Suc (nat (- r) - 1))" "Suc (nat (- r) - 1) \<le> 128"
        using assms(2) by simp_all
      then show ?thesis
        using that by blast
    qed (use that in blast)
  qed
  then show ?thesis
  proof cases
    case 1
    have g: "v = of_int (raw * 2 ^ nat (0 - - 802)) * 2 powi (- 802)"
      using grid_coarsen [of "- 802" 0 raw] by (simp only: v_def power_int_0_right mult_1_right)
    have "(32768 :: real) \<le> 2 powi 600"
      by simp
    with v(2) have h: "\<bar>v\<bar> \<le> 2 powi 600"
      by linarith
    have z: "0 \<le> 2 powi (- 45) * \<bar>v\<bar>"
      by (simp add: zero_le_power_int)
    show ?thesis
      unfolding v_def [symmetric]
    proof (intro exI conjI)
      show "(if r < 0 then direct_scale_up r (Finite v)
             else if 0 < r then direct_scale_down r (Finite v) else Finite v) = Finite v"
        using 1 by simp
      show "\<bar>v - v / 10 powi r\<bar> \<le> 2 powi (- 45) * \<bar>v / 10 powi r\<bar>"
        using z unfolding 1 by (simp only: power_int_0_right div_by_1)
      show "\<bar>v / 10 powi r\<bar> \<le> 2 powi 600"
        using h unfolding 1 by (simp only: power_int_0_right div_by_1)
      show "v = of_int (raw * 2 ^ nat (0 - - 802)) * 2 powi (- 802)"
        by (rule g)
    qed
  next
    case 2
    define T :: real where "T = 20 ^ Suc n"
    have "T \<le> 20 ^ 128"
      unfolding T_def using 2(2) by (intro power_increasing) simp_all
    also have "\<dots> \<le> (2 powi 700 :: real)"
      by simp
    finally have T: "T \<le> 2 powi 700" .
    have "2 powi (- 700) * T \<le> 2 powi (- 700) * (2 powi 700 :: real)"
      using T by (intro mult_left_mono) (simp_all add: zero_le_power_int)
    also have "\<dots> = 1"
      by (simp add: power_int_minus)
    finally have T1: "2 powi (- 700) * T \<le> 1" .
    have H: "(32768 :: real) \<le> 2 powi 700" "(32768 :: real) \<le> 2 powi 600"
      by simp_all
    have "v = 0 \<or> (2 powi (- 700) * 20 ^ Suc n \<le> \<bar>v\<bar> \<and> \<bar>v\<bar> \<le> 2 powi 700)"
      using v T1 H(1) unfolding T_def by linarith
    from scale_down_err [OF this] obtain v'
      where v': "direct_scale_down (int (Suc n)) (Finite v) = Finite v'"
        "\<bar>v' - v / 10 ^ Suc n\<bar> \<le> ((1 + 2 powi (- 53)) ^ Suc n - 1) * \<bar>v / 10 ^ Suc n\<bar>"
        "\<exists>k :: int. v' = of_int k * 2 powi (- 802)"
      by blast
    have "((1 + 2 powi (- 53)) ^ Suc n - 1) * \<bar>v / 10 ^ Suc n\<bar> \<le> 2 powi (- 45) * \<bar>v / 10 ^ Suc n\<bar>"
      by (intro mult_right_mono pow_err_bound 2(2)) simp
    with v'(2) have e: "\<bar>v' - v / 10 ^ Suc n\<bar> \<le> 2 powi (- 45) * \<bar>v / 10 ^ Suc n\<bar>"
      by linarith
    have "\<bar>v / 10 ^ Suc n\<bar> = \<bar>v\<bar> / 10 ^ Suc n"
      by (simp add: abs_divide)
    also have "\<dots> \<le> \<bar>v\<bar> / 1"
    proof -
      have "(1 :: real) \<le> 10 ^ Suc n"
        by (rule one_le_power) simp
      then show ?thesis
        by (intro divide_left_mono) (simp_all del: power_Suc)
    qed
    finally have "\<bar>v / 10 ^ Suc n\<bar> \<le> 2 powi 600"
      using v(2) H(2) by linarith
    moreover have "10 powi r = (10 :: real) ^ Suc n"
      unfolding 2(1) by (rule power_int_of_nat)
    ultimately show ?thesis
      using v' e 2(1) unfolding v_def [symmetric] by auto
  next
    case 3
    define T :: real where "T = 20 ^ Suc n"
    have T0: "0 \<le> T"
      by (simp add: T_def)
    have "T \<le> 20 ^ 128"
      unfolding T_def using 3(2) by (intro power_increasing) simp_all
    then have "32768 * T \<le> 32768 * 20 ^ 128"
      by simp
    also have "\<dots> \<le> (2 powi 700 :: real)"
      by simp
    finally have T: "32768 * T \<le> 2 powi 700" .
    have "\<bar>v\<bar> * T \<le> 32768 * T"
      using v(2) T0 by (intro mult_right_mono)
    with T have vT: "\<bar>v\<bar> * T \<le> 2 powi 700"
      by linarith
    have L: "2 powi (- 700) \<le> (1 :: real)"
      by (simp add: power_int_minus field_simps)
    have "v = 0 \<or> (2 powi (- 700) \<le> \<bar>v\<bar> \<and> \<bar>v\<bar> * 20 ^ Suc n \<le> 2 powi 700)"
      using v vT L unfolding T_def by linarith
    from scale_up_err [OF this] obtain v'
      where v': "direct_scale_up (- int (Suc n)) (Finite v) = Finite v'"
        "\<bar>v' - v * 10 ^ Suc n\<bar> \<le> ((1 + 2 powi (- 53)) ^ Suc n - 1) * \<bar>v * 10 ^ Suc n\<bar>"
        "\<exists>k :: int. v' = of_int k * 2 powi (- 802)"
      by blast
    have "((1 + 2 powi (- 53)) ^ Suc n - 1) * \<bar>v * 10 ^ Suc n\<bar> \<le> 2 powi (- 45) * \<bar>v * 10 ^ Suc n\<bar>"
      by (intro mult_right_mono pow_err_bound 3(2)) simp
    with v'(2) have e: "\<bar>v' - v * 10 ^ Suc n\<bar> \<le> 2 powi (- 45) * \<bar>v * 10 ^ Suc n\<bar>"
      by linarith
    have "(10 :: real) ^ Suc n \<le> 10 ^ 128"
      using 3(2) by (intro power_increasing) simp_all
    then have "\<bar>v\<bar> * 10 ^ Suc n \<le> 32768 * 10 ^ 128"
      using v(2) by (intro mult_mono) simp_all
    also have "\<dots> \<le> (2 powi 600 :: real)"
      by simp
    finally have "\<bar>v * 10 ^ Suc n\<bar> \<le> 2 powi 600"
      by (simp add: abs_mult)
    moreover have "v / 10 powi r = v * 10 ^ Suc n"
    proof -
      have "(10 :: real) powi (- int (Suc n)) = inverse (10 ^ Suc n)"
        by (simp only: power_int_minus power_int_of_nat)
      then show ?thesis
        unfolding 3(1) by (simp only: divide_inverse inverse_inverse_eq)
    qed
    ultimately show ?thesis
      using v' e 3(1) unfolding v_def [symmetric] by auto
  qed
qed

lemma direct_decode_err:
  assumes "\<bar>raw\<bar> \<le> 32768" "\<bar>r\<bar> \<le> 128" "\<bar>b0\<bar> \<le> 32768" "m0 \<noteq> 0" "\<bar>m0\<bar> \<le> 32768"
  shows "\<exists>y. double_div
      (double_sub
        (if r < 0 then direct_scale_up r (Finite (of_int raw))
         else if 0 < r then direct_scale_down r (Finite (of_int raw))
         else Finite (of_int raw))
        (Finite (of_int b0)))
      (Finite (of_int m0)) = Finite y \<and>
    \<bar>y - direct_spec raw r b0 m0\<bar> \<le>
      2 powi (- 44) * (\<bar>of_int raw / 10 powi r\<bar> + \<bar>of_int b0\<bar>) / \<bar>of_int m0\<bar>"
proof -
  define V :: real where "V = of_int raw / 10 powi r"
  define B :: real where "B = of_int b0"
  define M :: real where "M = of_int m0"
  define g :: real where "g = 2 powi (- 802)"
  define u :: real where "u = 2 powi (- 53)"
  define E :: real where "E = 2 powi (- 45)"
  define H :: real where "H = 2 powi 600"
  have g: "0 < g"
    by (simp add: g_def zero_less_power_int)
  have M: "1 \<le> \<bar>M\<bar>" "\<bar>M\<bar> \<le> 32768"
    using assms(4,5) unfolding M_def by (auto simp flip: of_int_abs)
  have B: "\<bar>B\<bar> \<le> 32768"
    using assms(3) unfolding B_def by (auto simp flip: of_int_abs)
  have u: "0 \<le> u" "u \<le> 1 / 2" "6 * u + E \<le> 2 powi (- 44)" "0 \<le> E" "E \<le> 1"
    by (simp_all add: u_def E_def power_int_minus)
  from scaled_err [OF assms(1,2)] obtain v' k
    where v': "(if r < 0 then direct_scale_up r (Finite (of_int raw))
               else if 0 < r then direct_scale_down r (Finite (of_int raw))
               else Finite (of_int raw)) = Finite v'"
      "\<bar>v' - V\<bar> \<le> E * \<bar>V\<bar>" "\<bar>V\<bar> \<le> H" "v' = of_int k * g"
    unfolding V_def E_def H_def g_def by blast
  have EV: "E * \<bar>V\<bar> \<le> 1 * \<bar>V\<bar>"
    using u(5) by (intro mult_right_mono) simp_all
  define x where "x = v' - B"
  have "of_int b0 * 2 powi 0 = of_int (b0 * 2 ^ nat (0 - - 802)) * (2 powi (- 802) :: real)"
    by (rule grid_coarsen) simp
  then have "B = of_int (b0 * 2 ^ 802) * g"
    by (simp only: B_def g_def power_int_0_right mult_1_right) simp
  with v'(4) have xg: "x = of_int (k - b0 * 2 ^ 802) * g"
    by (simp add: x_def left_diff_distrib)
  have xlow: "x = 0 \<or> g \<le> \<bar>x\<bar>"
  proof (cases "k - b0 * 2 ^ 802 = 0")
    case True
    with xg show ?thesis
      by simp
  next
    case False
    then have "1 \<le> \<bar>k - b0 * 2 ^ 802\<bar>"
      by linarith
    then have "(1 :: real) \<le> \<bar>of_int (k - b0 * 2 ^ 802)\<bar>"
      by (simp only: of_int_abs [symmetric] of_int_1_le_iff)
    then have "1 * g \<le> \<bar>of_int (k - b0 * 2 ^ 802)\<bar> * g"
      using g by (intro mult_right_mono) simp_all
    also have "\<dots> = \<bar>x\<bar>"
      using g unfolding xg by (simp only: abs_mult abs_of_pos)
    finally show ?thesis
      by simp
  qed
  have H0: "0 \<le> H"
    by (simp add: H_def zero_le_power_int)
  define K :: real where "K = 2 powi 1000"
  define J :: real where "J = 2 powi (- 1000)"
  have Hn: "4 * H + 65536 \<le> K" "J \<le> g / 65536" "g / 65536 \<le> g"
    using g by (simp_all add: H_def g_def K_def J_def power_int_minus field_simps)
  have xhi: "\<bar>x\<bar> \<le> 2 * H + 32768"
    using v'(2,3) EV B unfolding x_def by linarith
  have "x = 0 \<or> J \<le> \<bar>x\<bar>"
    using xlow Hn(2,3) by linarith
  moreover have "\<bar>x\<bar> \<le> K"
    using xhi Hn(1) H0 by linarith
  ultimately obtain w where w: "double_round x = Finite w" "\<bar>w - x\<bar> \<le> u * \<bar>x\<bar>"
    unfolding u_def J_def K_def by (rule round_rel)
  have ux: "u * \<bar>x\<bar> \<le> 1 / 2 * \<bar>x\<bar>"
    using u(2) by (intro mult_right_mono) simp_all
  define q where "q = w / M"
  have aq: "\<bar>q\<bar> = \<bar>w\<bar> / \<bar>M\<bar>"
    by (simp add: q_def abs_divide)
  have qhi: "\<bar>q\<bar> \<le> \<bar>w\<bar>"
  proof -
    have "\<bar>w\<bar> / \<bar>M\<bar> \<le> \<bar>w\<bar> / 1"
      using M(1) by (intro divide_left_mono) simp_all
    then show ?thesis
      by (simp add: aq)
  qed
  have qlo: "\<bar>w\<bar> / 32768 \<le> \<bar>q\<bar>"
    unfolding aq using M by (intro divide_left_mono) simp_all
  have "q = 0 \<or> J \<le> \<bar>q\<bar>"
  proof (cases "x = 0")
    case True
    with w(2) have "w = 0"
      by simp
    then show ?thesis
      by (simp add: q_def)
  next
    case False
    with xlow have "g \<le> \<bar>x\<bar>"
      by simp
    with w(2) ux have "g / 2 \<le> \<bar>w\<bar>"
      by linarith
    with qlo Hn(2) have "J \<le> \<bar>q\<bar>"
      by linarith
    then show ?thesis
      by simp
  qed
  moreover have "\<bar>q\<bar> \<le> K"
    using qhi w(2) ux xhi Hn(1) by linarith
  ultimately obtain z where z: "double_round q = Finite z" "\<bar>z - q\<bar> \<le> u * \<bar>q\<bar>"
    unfolding u_def J_def K_def by (rule round_rel)
  have calc: "double_div
      (double_sub
        (if r < 0 then direct_scale_up r (Finite (of_int raw))
         else if 0 < r then direct_scale_down r (Finite (of_int raw))
         else Finite (of_int raw))
        (Finite (of_int b0)))
      (Finite (of_int m0)) = Finite z"
    unfolding v'(1) using assms(4) w(1) z(1)
    by (simp add: x_def B_def q_def M_def)
  define s where "s = (V - B) / M"
  define xm where "xm = x / M"
  define Vm where "Vm = \<bar>V\<bar> / \<bar>M\<bar>"
  define Bm where "Bm = \<bar>B\<bar> / \<bar>M\<bar>"
  have M0: "0 < \<bar>M\<bar>"
    using M(1) by linarith
  have "q - xm = (w - x) / M"
    by (simp add: q_def xm_def diff_divide_distrib)
  then have "\<bar>q - xm\<bar> = \<bar>w - x\<bar> / \<bar>M\<bar>"
    by (simp add: abs_divide)
  also have "\<dots> \<le> u * \<bar>x\<bar> / \<bar>M\<bar>"
    using w(2) M0 by (intro divide_right_mono) simp_all
  also have "\<dots> = u * \<bar>xm\<bar>"
    by (simp add: xm_def abs_divide)
  finally have 1: "\<bar>q - xm\<bar> \<le> u * \<bar>xm\<bar>" .
  have "xm - s = (v' - V) / M"
    by (simp add: xm_def s_def x_def diff_divide_distrib)
  then have "\<bar>xm - s\<bar> = \<bar>v' - V\<bar> / \<bar>M\<bar>"
    by (simp add: abs_divide)
  also have "\<dots> \<le> E * \<bar>V\<bar> / \<bar>M\<bar>"
    using v'(2) M0 by (intro divide_right_mono) simp_all
  also have "\<dots> = E * Vm"
    by (simp add: Vm_def)
  finally have 2: "\<bar>xm - s\<bar> \<le> E * Vm" .
  have "\<bar>s\<bar> = \<bar>V - B\<bar> / \<bar>M\<bar>"
    by (simp add: s_def abs_divide)
  also have "\<dots> \<le> (\<bar>V\<bar> + \<bar>B\<bar>) / \<bar>M\<bar>"
    using M0 by (intro divide_right_mono) simp_all
  also have "\<dots> = Vm + Bm"
    by (simp add: Vm_def Bm_def add_divide_distrib)
  finally have 3: "\<bar>s\<bar> \<le> Vm + Bm" .
  have VB: "0 \<le> Vm" "0 \<le> Bm"
    by (simp_all add: Vm_def Bm_def)
  define S where "S = Vm + Bm"
  define US where "US = u * S"
  define ES where "ES = E * S"
  have S: "\<bar>s\<bar> \<le> S" "Vm \<le> S" "0 \<le> S"
    using 3 VB by (simp_all add: S_def)
  have US: "0 \<le> US"
    using u(1) S(3) by (simp add: US_def)
  have "E * Vm \<le> E * S"
    using u(4) S(2) by (intro mult_left_mono)
  then have EVm: "E * Vm \<le> ES"
    by (simp add: ES_def)
  have "E * S \<le> 1 * S"
    using u(5) S(3) by (intro mult_right_mono)
  then have ES: "ES \<le> S"
    by (simp add: ES_def)
  have xm: "\<bar>xm\<bar> \<le> 2 * S"
    using 2 S(1) EVm ES by linarith
  have "u * \<bar>xm\<bar> \<le> u * (2 * S)"
    using xm u(1) by (intro mult_left_mono)
  then have uxm: "u * \<bar>xm\<bar> \<le> 2 * US"
    by (simp add: US_def)
  have "u * \<bar>xm\<bar> \<le> 1 / 2 * \<bar>xm\<bar>"
    using u(2) by (intro mult_right_mono) simp_all
  with 1 xm have qa: "\<bar>q\<bar> \<le> 3 * S"
    by linarith
  have "u * \<bar>q\<bar> \<le> u * (3 * S)"
    using qa u(1) by (intro mult_left_mono)
  then have uq: "u * \<bar>q\<bar> \<le> 3 * US"
    by (simp add: US_def)
  have "\<bar>z - s\<bar> \<le> 6 * US + ES"
    using z(2) 1 2 uq uxm EVm US by linarith
  also have "\<dots> = (6 * u + E) * S"
    by (simp add: US_def ES_def algebra_simps)
  also have "\<dots> \<le> 2 powi (- 44) * S"
    using u(3) S(3) by (intro mult_right_mono)
  also have "\<dots> = 2 powi (- 44) * (\<bar>V\<bar> + \<bar>B\<bar>) / \<bar>M\<bar>"
    by (simp add: S_def Vm_def Bm_def add_divide_distrib)
  finally have "\<bar>z - s\<bar> \<le> 2 powi (- 44) * (\<bar>V\<bar> + \<bar>B\<bar>) / \<bar>M\<bar>" .
  with calc show ?thesis
    unfolding direct_spec_def s_def V_def B_def M_def by blast
qed

lemma sint16_range: "\<bar>sint (w :: 16 word)\<bar> \<le> 32768"
  using sint_ge [of w] sint_lt [of w] by simp

lemma sint8_range: "\<bar>sint (w :: 8 word)\<bar> \<le> 128"
  using sint_ge [of w] sint_lt [of w] by simp

text \<open>
  When the slope \<open>m\<close> is zero, as it is in every table entry until a COEFFICIENTS
  exchange has filled it in, the last division gives an infinity or a NaN.
\<close>

lemma direct_decode_zero_slope:
  assumes "m (c opd True) = 0"
  shows "direct_decode opd value \<in> {PlusInf, MinusInf, NaN}"
proof -
  have "double_div d (Finite 0) \<in> {PlusInf, MinusInf, NaN}" for d
    by (cases d) (simp_all add: inf_of_def)
  with assms show ?thesis
    by (simp add: direct_decode_def Let_def)
qed

text \<open>
  Claim C8 as stated (DIRECT decoding computes \<open>(signed16(raw) / 10^R - b) / m\<close>)
  fails as an equality: the decoder computes in \<^verbatim>\<open>double\<close>, and a division by
  \<open>10.0\<close> rounds. With \<open>R = 2\<close>, \<open>m = 1\<close>, \<open>b = 0\<close> the raw word 7 decodes to
  \<open>5044031582654955 / 2^56\<close>, printed \<^verbatim>\<open>0.06999999999999999\<close> at 16 digits, where the
  formula gives \<open>7 / 100\<close>; the result is not even the \<^verbatim>\<open>double\<close> nearest to \<open>7 / 100\<close>,
  which is \<open>5044031582654956 / 2^56\<close>.
\<close>

theorem direct_decode_not_exact:
  "direct_decode (direct_example 2) (uint (7 :: u16)) =
     Finite (5044031582654955 / 72057594037927936) \<and>
   direct_spec (sint (7 :: u16)) 2 0 1 = 7 / 100 \<and>
   direct_decode (direct_example 2) (uint (7 :: u16)) \<noteq>
     Finite (direct_spec (sint (7 :: u16)) 2 0 1) \<and>
   double_round (7 / 100) = Finite (5044031582654956 / 72057594037927936)"
proof -
  have "direct_decode (direct_example 2) (uint (7 :: u16)) =
      Finite (5044031582654955 / 72057594037927936)"
    by (simp add: direct_decode_def direct_example_def direct_scale_down.simps [of 2]
        direct_scale_down.simps [of 1] double_eval)
  moreover have "direct_spec (sint (7 :: u16)) 2 0 1 = 7 / 100"
    by (simp add: direct_spec_def)
  moreover have "double_round (7 / 100) = Finite (5044031582654956 / 72057594037927936)"
    by (simp add: double_eval)
  ultimately show ?thesis
    by simp
qed

text \<open>
  Claim C8, amended: for every raw word and every read-direction coefficient set
  with a slope other than zero, the decoder of the source, which scales by repeated
  multiplication or division by \<open>10.0\<close> in \<^verbatim>\<open>double\<close>, gives a finite number within
  \<open>2^-44 * (\<bar>signed16(raw) / 10^R\<bar> + \<bar>b\<bar>) / \<bar>m\<bar>\<close> of \<open>(signed16(raw) / 10^R - b) / m\<close>;
  with \<open>R = 2\<close>, \<open>m = 1\<close>, \<open>b = 0\<close> the raw word 250 decodes to exactly 2.5, and with
  \<open>R = -2\<close>, \<open>m = 1\<close>, \<open>b = 0\<close> the raw word 3 decodes to exactly 300.
\<close>

theorem direct_decode_close_to_spec:
  "(sint (m (c opd True)) \<noteq> 0 \<longrightarrow>
      (\<exists>y. direct_decode opd (uint (raw :: u16)) = Finite y \<and>
         \<bar>y - direct_spec (sint raw) (sint (R (c opd True))) (sint (b (c opd True)))
                (sint (m (c opd True)))\<bar> \<le>
           2 powi (- 44) *
             (\<bar>of_int (sint raw) / 10 powi sint (R (c opd True))\<bar> +
              \<bar>of_int (sint (b (c opd True)))\<bar>) /
             \<bar>of_int (sint (m (c opd True)))\<bar>)) \<and>
   direct_decode (direct_example 2) (uint (250 :: u16)) = Finite (5 / 2) \<and>
   direct_decode (direct_example (- 2)) (uint (3 :: u16)) = Finite 300"
proof -
  have gen: "\<exists>y. direct_decode opd (uint raw) = Finite y \<and>
         \<bar>y - direct_spec (sint raw) (sint (R (c opd True))) (sint (b (c opd True)))
                (sint (m (c opd True)))\<bar> \<le>
           2 powi (- 44) *
             (\<bar>of_int (sint raw) / 10 powi sint (R (c opd True))\<bar> +
              \<bar>of_int (sint (b (c opd True)))\<bar>) /
             \<bar>of_int (sint (m (c opd True)))\<bar>"
    if "sint (m (c opd True)) \<noteq> 0"
    unfolding direct_decode_def Let_def word_of_int_uint
    by (rule direct_decode_err [OF sint16_range [of raw] sint8_range [of "R (c opd True)"]
        sint16_range [of "b (c opd True)"] that sint16_range [of "m (c opd True)"]])
  have "direct_decode (direct_example 2) (uint (250 :: u16)) = Finite (5 / 2)"
    by (simp add: direct_decode_def direct_example_def direct_scale_down.simps [of 2]
        direct_scale_down.simps [of 1] double_eval)
  moreover have "direct_decode (direct_example (- 2)) (uint (3 :: u16)) = Finite 300"
    by (simp add: direct_decode_def direct_example_def direct_scale_up.simps [of "- 2"]
        direct_scale_up.simps [of "- 1"] double_eval)
  ultimately show ?thesis
    using gen by blast
qed

theorem direct_decode_close_to_spec_witness:
  "sint (m (c (direct_example 2) True)) \<noteq> 0 \<and>
   direct_decode (direct_example 2) (uint (7 :: u16)) =
     Finite (5044031582654955 / 72057594037927936) \<and>
   \<bar>5044031582654955 / 72057594037927936 - direct_spec 7 2 0 1\<bar> \<le>
     2 powi (- 44) * (\<bar>7 / 10 powi 2\<bar> + \<bar>0\<bar>) / \<bar>1 :: real\<bar>"
proof -
  have h: "sint (m (c (direct_example 2) True)) \<noteq> 0"
    by (simp add: direct_example_def)
  have v: "direct_decode (direct_example 2) (uint (7 :: u16)) =
      Finite (5044031582654955 / 72057594037927936)"
    by (simp add: direct_decode_def direct_example_def direct_scale_down.simps [of 2]
        direct_scale_down.simps [of 1] double_eval)
  from direct_decode_close_to_spec [of "direct_example 2" 7] h
  obtain y where y: "direct_decode (direct_example 2) (uint (7 :: u16)) = Finite y"
    "\<bar>y - direct_spec (sint (7 :: u16)) (sint (R (c (direct_example 2) True)))
        (sint (b (c (direct_example 2) True))) (sint (m (c (direct_example 2) True)))\<bar> \<le>
      2 powi (- 44) *
        (\<bar>of_int (sint (7 :: u16)) / 10 powi sint (R (c (direct_example 2) True))\<bar> +
         \<bar>of_int (sint (b (c (direct_example 2) True)))\<bar>) /
        \<bar>of_int (sint (m (c (direct_example 2) True)))\<bar>"
    by blast
  from y(1) v have "y = 5044031582654955 / 72057594037927936"
    by simp
  with y(2) have "\<bar>5044031582654955 / 72057594037927936 - direct_spec 7 2 0 1\<bar> \<le>
     2 powi (- 44) * (\<bar>7 / 10 powi 2\<bar> + \<bar>0\<bar>) / \<bar>1 :: real\<bar>"
    by (simp add: direct_example_def)
  with h v show ?thesis
    by blast
qed

section \<open>Evaluating \<^verbatim>\<open>checksupport\<close> on the command table\<close>

lemma checksupport_probe:
  assumes "\<not> is_pmb_extended k" "op s (ucast PMB_QUERY) \<noteq> Unsupported" "\<not> no_query s"
    "k \<le> 0xff" "op s (ucast k) = Null"
  shows "checksupport bus s k =
    (case catalog_index (ops s) k 0 of
       None \<Rightarrow> Inr (1, s)
     | Some j \<Rightarrow> Inr (if op (query bus s j) (ucast k) \<noteq> Unsupported then 1 else 0,
                      query bus s j))"
  using assms
  by (auto simp: checksupport_def Let_def checksupport_loop_index split: option.splits)

lemma idx_vout_max: "catalog_index pmbus_ops 0x24 0 = Some 23"
  by (simp add: pmbus_ops_def desc_def)

lemma idx_absent: "catalog_index pmbus_ops 0x06 0 = None"
  by (simp add: pmbus_ops_def desc_def)

lemma nth_vout_max: "pmbus_ops ! 23 = desc ''vout_max'' 0x24 RW2 VOLTS FLG_FORMAT_VOUT"
  by (simp add: pmbus_ops_def)

lemma length_pmbus_ops: "length pmbus_ops = 204"
  by (simp add: pmbus_ops_def)

lemma probed_vout_max:
  "checksupport bus_supported (pmbus_dev_init I2C_FUNC_I2C 0x10) 0x24 =
     Inr (1, (pmbus_dev_init I2C_FUNC_I2C 0x10)
       \<lparr>op := (\<lambda>k. Null)(0x24 := PmbusOps 23),
        ops := pmbus_ops[23 := (desc ''vout_max'' 0x24 RW2 VOLTS FLG_FORMAT_VOUT)\<lparr>query_byte := 0x80\<rparr>],
        trace := [SMBUS_PROC_CALL 0x1a 0x2401]\<rparr>)"
  apply (subst checksupport_probe)
  apply (simp_all add: is_pmb_extended_def pmbus_dev_init_def idx_vout_max)
  apply (simp add: query_def nth_vout_max desc_def ioctl_def bus_supported_def reply_word_def
      PMB_QUERY_def query_coefficients_def query_vout_mode_def PMB_VOUT_MODE_def Let_def
      length_pmbus_ops)
  done

lemma idx_page: "catalog_index pmbus_ops 0x00 0 = Some 0"
  by (simp add: pmbus_ops_def desc_def)

lemma nth_page: "pmbus_ops ! 0 = desc ''page'' 0x00 RW1 NO_UNITS 0"
  by (simp add: pmbus_ops_def)


lemma failed_page:
  "checksupport bus_pec_only (pmbus_dev_init I2C_FUNC_I2C 0x10) 0x00 =
     Inr (1, (pmbus_dev_init I2C_FUNC_I2C 0x10)
       \<lparr>no_query := True, trace := [SMBUS_PROC_CALL 0x1a 0x0001]\<rparr>)"
  apply (subst checksupport_probe)
  apply (simp_all add: is_pmb_extended_def pmbus_dev_init_def idx_page)
  apply (simp add: query_def nth_page desc_def ioctl_def bus_pec_only_def reply_word_def
      PMB_QUERY_def Let_def)
  done

lemma query_failed_slots: "\<not> no_query s \<Longrightarrow> no_query (query bus s i) \<Longrightarrow> op (query bus s i) = op s"
  by (auto simp: query_def ioctl_def Let_def query_coefficients_frame query_vout_mode_frame
      split: prod.splits reply.splits if_splits)

lemma sweep_unfold:
  "show_p1_query_all bus s 0 =
     (if 0 < length (ops s) \<and> \<not> no_query s \<and> tag (ops s ! 0) \<noteq> None
      then show_p1_query_all bus (query bus s 0) (Suc 0) else s)"
  "show_p1_query_all bus s (Suc 0) =
     (if Suc 0 < length (ops s) \<and> \<not> no_query s \<and> tag (ops s ! Suc 0) \<noteq> None
      then show_p1_query_all bus (query bus s (Suc 0)) 2 else s)"
  "show_p1_query_all bus s (numeral n) =
     (if numeral n < length (ops s) \<and> \<not> no_query s \<and> tag (ops s ! numeral n) \<noteq> None
      then show_p1_query_all bus (query bus s (numeral n)) (numeral (n + num.One)) else s)"
    apply (auto simp: show_p1_query_all.simps [of bus s 0])[1]
   apply (auto simp: show_p1_query_all.simps [of bus s "Suc 0"] numeral_2_eq_2)[1]
  apply (auto simp: show_p1_query_all.simps [of bus s "numeral n"])[1]
  done

lemma catalog_index_inventory:
  "catalog_index pmbus_ops 0x00 0 = Some 0"
  "catalog_index pmbus_ops 0x01 0 = Some 1"
  "catalog_index pmbus_ops 0x05 0 = Some 5"
  "catalog_index pmbus_ops 0x1a 0 = Some 17"
  "catalog_index pmbus_ops 0x99 0 = Some 114"
  "catalog_index pmbus_ops 0x9a 0 = Some 115"
  "catalog_index pmbus_ops 0x9b 0 = Some 116"
  "catalog_index pmbus_ops 0x9c 0 = Some 117"
  "catalog_index pmbus_ops 0x9d 0 = Some 118"
  "catalog_index pmbus_ops 0x9e 0 = Some 119"
  "catalog_index pmbus_ops 0x9f 0 = Some 120"
  "catalog_index pmbus_ops 0xad 0 = Some 134"
  "catalog_index pmbus_ops 0xae 0 = Some 135"
  by (simp_all add: pmbus_ops_def desc_def)

lemma nth_pmbus_ops:
  "pmbus_ops ! 0 = desc ''page'' 0x00 RW1 NO_UNITS 0"
  "pmbus_ops ! Suc 0 = desc ''operation'' 0x01 RW1 NO_UNITS 0"
  "pmbus_ops ! 2 = desc ''on_off_config'' 0x02 RW1 NO_UNITS 0"
  "pmbus_ops ! 3 = desc ''clear_fault'' 0x03 W0 NO_UNITS 0"
  "pmbus_ops ! 4 = desc ''phase'' 0x04 RW1 NO_UNITS 0"
  "pmbus_ops ! 5 = desc ''page_plus_write'' 0x05 RWB NO_UNITS 0"
  "pmbus_ops ! 6 = desc ''page_plus_read'' 0x05 RWB NO_UNITS 0"
  "pmbus_ops ! 7 = desc ''write_protect'' 0x10 RW1 NO_UNITS 0"
  "pmbus_ops ! 17 = desc ''query'' 0x1a RWP_QUERY NO_UNITS 0"
  "pmbus_ops ! 114 = desc ''mfr_id'' 0x99 RWB STRING FLG_SHOW_P1"
  "pmbus_ops ! 115 = desc ''mfr_model'' 0x9a RWB STRING FLG_SHOW_P1"
  "pmbus_ops ! 116 = desc ''mfr_revision'' 0x9b RWB STRING FLG_SHOW_P1"
  "pmbus_ops ! 117 = desc ''mfr_location'' 0x9c RWB STRING FLG_SHOW_P1"
  "pmbus_ops ! 118 = desc ''mfr_date'' 0x9d RWB STRING FLG_SHOW_P1"
  "pmbus_ops ! 119 = desc ''mfr_serial'' 0x9e RWB STRING FLG_SHOW_P1"
  "pmbus_ops ! 120 = desc ''app_profile_support'' 0x9f RWB_APP_PROFILE NO_UNITS FLG_SHOW_P1"
  "pmbus_ops ! 134 = desc ''ic_device_id'' 0xad RWB STRING FLG_SHOW_P1"
  "pmbus_ops ! 135 = desc ''ic_device_rev'' 0xae RWB STRING FLG_SHOW_P1"
  by (simp_all add: pmbus_ops_def PMB_QUERY_def PMB_MFR_ID_def PMB_MFR_MODEL_def
      PMB_MFR_REVISION_def
      PMB_MFR_LOCATION_def PMB_MFR_DATE_def PMB_MFR_SERIAL_def PMB_APP_PROFILES_def
      PMB_IC_DEVICE_ID_def PMB_IC_DEVICE_REV_def)

lemma catalog_index_update:
  "i < length xs \<Longrightarrow> tag d = tag (xs ! i) \<Longrightarrow> cmd d = cmd (xs ! i) \<Longrightarrow>
   catalog_index (xs[i := d]) k n = catalog_index xs k n"
proof (induction xs arbitrary: i n)
  case Nil
  then show ?case
    by simp
next
  case (Cons x xs)
  then show ?case
    by (cases i) simp_all
qed

lemmas session_eval = catalog_index_update
  step_def fault_bind_def pmbus_dev_init_def pmbus_dev_show_p1_def pmbus_list_inventory_def
  pmbus_read_string_def checksupport_probe is_pmb_extended_def catalog_index_inventory
  query_def ioctl_def reply_word_def query_coefficients_def query_vout_mode_def Let_def desc_def
  length_pmbus_ops nth_pmbus_ops sweep_unfold
  PMB_QUERY_def PMB_VOUT_MODE_def PMB_COEFFICIENTS_def
  PMB_MFR_ID_def PMB_MFR_MODEL_def PMB_MFR_REVISION_def PMB_MFR_LOCATION_def PMB_MFR_DATE_def
  PMB_MFR_SERIAL_def PMB_APP_PROFILES_def PMB_IC_DEVICE_ID_def PMB_IC_DEVICE_REV_def

section \<open>Invariants of sessions\<close>

lemma stable_keeps: "inv_stable bus I \<Longrightarrow> keeps s s' \<Longrightarrow> s \<in> I \<Longrightarrow> s' \<in> I"
  by (auto simp: inv_stable_def)

lemma stable_checksupport:
  "inv_stable bus I \<Longrightarrow> checksupport bus s k = Inr (r, s') \<Longrightarrow> s \<in> I \<Longrightarrow> s' \<in> I"
  by (auto simp: inv_stable_def)

lemma stable_read_byte:
  "inv_stable bus I \<Longrightarrow> pmbus_read_byte_data bus s k = (x, s') \<Longrightarrow> s \<in> I \<Longrightarrow> s' \<in> I"
  by (blast intro: stable_keeps read_byte_keeps)

lemma stable_read_word:
  "inv_stable bus I \<Longrightarrow> pmbus_read_word_data bus s k = (x, s') \<Longrightarrow> s \<in> I \<Longrightarrow> s' \<in> I"
  by (blast intro: stable_keeps read_word_keeps)

lemma stable_read_block:
  "inv_stable bus I \<Longrightarrow> pmbus_read_block bus s k n rb = (x, rb', s') \<Longrightarrow> s \<in> I \<Longrightarrow> s' \<in> I"
  by (blast intro: stable_keeps read_block_keeps)

lemma stable_ioctl:
  "inv_stable bus I \<Longrightarrow> ioctl bus s r = (x, s') \<Longrightarrow> (\<And>k w. r \<noteq> SMBUS_PROC_CALL k w) \<Longrightarrow>
   s \<in> I \<Longrightarrow> s' \<in> I"
  by (blast intro: stable_keeps ioctl_keeps)

lemma stable_write_byte:
  "inv_stable bus I \<Longrightarrow> s \<in> I \<Longrightarrow> snd (smbus_write_byte bus s v) \<in> I"
  by (cases "smbus_write_byte bus s v") (auto intro: stable_keeps write_byte_keeps)

lemma stable_write_byte_data:
  "inv_stable bus I \<Longrightarrow> s \<in> I \<Longrightarrow> snd (pmbus_write_byte_data bus s k v) \<in> I"
  by (cases "pmbus_write_byte_data bus s k v") (auto intro: stable_keeps write_byte_data_keeps)

lemma stable_fields:
  "inv_stable bus I \<Longrightarrow> s \<in> I \<Longrightarrow> s\<lparr>capability := v\<rparr> \<in> I"
  "inv_stable bus I \<Longrightarrow> s \<in> I \<Longrightarrow> s\<lparr>revision := v\<rparr> \<in> I"
  "inv_stable bus I \<Longrightarrow> s \<in> I \<Longrightarrow> s\<lparr>use_pec := u\<rparr> \<in> I"
  by (erule stable_keeps; simp add: keeps_def)+

lemma inv_kept_Inr: "st v \<in> I \<Longrightarrow> inv_kept I (Inr v) st"
  by (simp add: inv_kept_def)

lemma inv_kept_if:
  "(p \<Longrightarrow> inv_kept I x st) \<Longrightarrow> (\<not> p \<Longrightarrow> inv_kept I y st) \<Longrightarrow>
   inv_kept I (if p then x else y) st"
  by simp

lemma inv_kept_bind:
  assumes "inv_kept I x st1" and "\<And>v. x = Inr v \<Longrightarrow> st1 v \<in> I \<Longrightarrow> inv_kept I (f v) st"
  shows "inv_kept I (fault_bind x f) st"
  using assms by (auto simp: inv_kept_def fault_bind_def split: sum.splits)

lemma inv_kept_bind1:
  assumes "inv_kept I x (\<lambda>s. s)"
    and "\<And>s1. x = Inr s1 \<Longrightarrow> s1 \<in> I \<Longrightarrow> inv_kept I (f s1) st"
  shows "inv_kept I (fault_bind x f) st"
  using assms by (auto simp: inv_kept_def fault_bind_def split: sum.splits)

lemma inv_kept_bind2:
  assumes "inv_kept I x snd" and "\<And>a s1. x = Inr (a, s1) \<Longrightarrow> s1 \<in> I \<Longrightarrow> inv_kept I (f a s1) st"
  shows "inv_kept I (fault_bind x (\<lambda>(a, s1). f a s1)) st"
  using assms by (auto simp: inv_kept_def fault_bind_def split: sum.splits)

lemma inv_checksupport: "inv_stable bus I \<Longrightarrow> s \<in> I \<Longrightarrow> inv_kept I (checksupport bus s k) snd"
  by (auto simp: inv_kept_def intro: stable_checksupport)

lemma inv_read_string:
  "inv_stable bus I \<Longrightarrow> s \<in> I \<Longrightarrow> inv_kept I (pmbus_read_string bus s k) snd"
  unfolding pmbus_read_string_def
  by (rule inv_kept_bind2 [OF inv_checksupport])
    (auto simp: inv_kept_def split: prod.splits intro: stable_read_block)

lemma inv_status_byte:
  "inv_stable bus I \<Longrightarrow> s \<in> I \<Longrightarrow> inv_kept I (status_byte bus s k) (\<lambda>s. s)"
  unfolding status_byte_def
  by (rule inv_kept_bind2 [OF inv_checksupport])
    (auto simp: inv_kept_def split: prod.splits intro: stable_read_byte [OF _ surjective_pairing])

lemma inv_show_status_fans:
  "inv_stable bus I \<Longrightarrow> s \<in> I \<Longrightarrow> inv_kept I (show_status_fans bus s) (\<lambda>s. s)"
  unfolding show_status_fans_def
  by (intro inv_kept_bind1 inv_status_byte)

lemma inv_show_status_details:
  "inv_stable bus I \<Longrightarrow> s \<in> I \<Longrightarrow> inv_kept I (show_status_details bus s value) (\<lambda>s. s)"
  unfolding show_status_details_def
  by (intro inv_kept_bind1 inv_kept_if inv_status_byte inv_show_status_fans inv_kept_Inr)

lemma inv_list_inventory:
  "inv_stable bus I \<Longrightarrow> s \<in> I \<Longrightarrow> inv_kept I (pmbus_list_inventory bus s) (\<lambda>s. s)"
  unfolding pmbus_list_inventory_def
  by (intro inv_kept_bind2 inv_read_string inv_kept_Inr)

lemma inv_show_status:
  "inv_stable bus I \<Longrightarrow> s \<in> I \<Longrightarrow> inv_kept I (pmbus_dev_show_status bus s) (\<lambda>s. s)"
  unfolding pmbus_dev_show_status_def
  by (rule inv_kept_bind2 [OF inv_checksupport])
    (auto simp: Let_def split: prod.splits
      intro!: inv_kept_Inr inv_kept_bind2 inv_checksupport inv_show_status_details
      intro: stable_read_word stable_read_byte)

lemma inv_clear_fault:
  "inv_stable bus I \<Longrightarrow> s \<in> I \<Longrightarrow> inv_kept I (pmbus_clear_fault bus s) (\<lambda>s. s)"
  unfolding pmbus_clear_fault_def
  by (rule inv_kept_bind2 [OF inv_checksupport])
    (auto intro!: inv_kept_Inr intro: stable_write_byte)

lemma inv_main_mfr_cmd:
  "inv_stable bus I \<Longrightarrow> s \<in> I \<Longrightarrow> inv_kept I (main_mfr_cmd bus s v) (\<lambda>s. s)"
  unfolding main_mfr_cmd_def
  by (auto intro!: inv_kept_if inv_kept_Inr inv_kept_bind2 inv_checksupport
      intro: stable_write_byte)

lemma inv_scan:
  "inv_stable bus I \<Longrightarrow> s \<in> I \<Longrightarrow> inv_kept I (pmbus_dev_scan bus e s) snd"
  unfolding pmbus_dev_scan_def
  by (auto simp: Let_def split: prod.splits reply.splits sum.splits if_splits
      intro!: inv_kept_Inr inv_kept_bind2 inv_checksupport)
    (blast intro: stable_read_byte stable_ioctl stable_fields)+

lemma inv_show_values_entry:
  "inv_stable bus I \<Longrightarrow> s \<in> I \<Longrightarrow> inv_kept I (show_values_entry bus s i) snd"
  unfolding show_values_entry_def
  by (auto simp: Let_def inv_kept_def fault_bind_def
      split: prod.splits sum.splits desc_ptr.splits if_splits
      intro: stable_read_byte stable_read_word)

lemma inv_show_values_from:
  "inv_stable bus I \<Longrightarrow> s \<in> I \<Longrightarrow> inv_kept I (pmbus_dev_show_values_from bus s i) snd"
proof (induction bus s i rule: pmbus_dev_show_values_from.induct)
  case (1 bus pmdev i)
  show ?case
  proof (cases "i < 255")
    case False
    with 1(3) show ?thesis
      by (subst pmbus_dev_show_values_from.simps) (simp add: inv_kept_def)
  next
    case True
    have "inv_kept I
      (fault_bind (show_values_entry bus pmdev i) (\<lambda>(line, pmdev).
       fault_bind (pmbus_dev_show_values_from bus pmdev (i + 1)) (\<lambda>(rest, pmdev).
         Inr (case line of None \<Rightarrow> rest | Some l \<Rightarrow> l # rest, pmdev)))) snd"
    proof (rule inv_kept_bind2 [OF inv_show_values_entry [OF 1(2,3)]])
      fix line s1
      assume e: "show_values_entry bus pmdev i = Inr (line, s1)" and s1: "s1 \<in> I"
      show "inv_kept I
        (fault_bind (pmbus_dev_show_values_from bus s1 (i + 1)) (\<lambda>(rest, pmdev).
          Inr (case line of None \<Rightarrow> rest | Some l \<Rightarrow> l # rest, pmdev))) snd"
        by (rule inv_kept_bind2 [OF 1(1) [OF True 1(2) s1]])
          (simp add: inv_kept_def)
    qed
    with True show ?thesis
      by (subst pmbus_dev_show_values_from.simps) simp
  qed
qed

lemma stable_read_block_snd:
  "inv_stable bus I \<Longrightarrow> s \<in> I \<Longrightarrow> snd (snd (pmbus_read_block bus s k n rb)) \<in> I"
  by (cases "pmbus_read_block bus s k n rb") (auto intro: stable_read_block)

lemma inv_step:
  assumes "inv_stable bus I" "s \<in> I" "\<not> is_sweep a"
  shows "inv_kept I (step bus s a) (\<lambda>s. s)"
proof (cases a)
  case (CheckSupport k)
  with assms show ?thesis
    by (cases "checksupport bus s k")
      (auto simp: step_def inv_kept_def intro: stable_checksupport)
next
  case (ReadString k)
  with inv_read_string [OF assms(1,2), of k] show ?thesis
    by (cases "pmbus_read_string bus s k") (auto simp: step_def inv_kept_def)
next
  case (ReadBlock k n)
  with assms show ?thesis
    by (auto simp: step_def inv_kept_def intro: stable_read_block_snd)
next
  case (StatusByte k)
  with inv_status_byte [OF assms(1,2)] show ?thesis
    by (simp add: step_def)
next
  case (Scan e)
  with inv_scan [OF assms(1,2), of e] show ?thesis
    by (cases "pmbus_dev_scan bus e s") (auto simp: step_def inv_kept_def)
next
  case ShowStatus
  with inv_show_status [OF assms(1,2)] show ?thesis
    by (simp add: step_def)
next
  case ShowValues
  with inv_show_values_from [OF assms(1,2), of 0] show ?thesis
    by (cases "pmbus_dev_show_values_from bus s 0")
      (auto simp: step_def inv_kept_def pmbus_dev_show_values_def)
next
  case ShowCommands
  with assms show ?thesis
    by (cases "pmbus_dev_show_commands s") (auto simp: step_def inv_kept_def)
next
  case ClearFault
  with inv_clear_fault [OF assms(1,2)] show ?thesis
    by (simp add: step_def)
next
  case (WriteByteData k v)
  with assms show ?thesis
    by (auto simp: step_def inv_kept_def intro: stable_write_byte_data)
next
  case (MfrCmd v)
  with inv_main_mfr_cmd [OF assms(1,2)] show ?thesis
    by (simp add: step_def)
qed (use assms in simp_all)

lemma inv_run:
  "inv_stable bus I \<Longrightarrow> s \<in> I \<Longrightarrow> \<forall>a \<in> set as. \<not> is_sweep a \<Longrightarrow>
   inv_kept I (run bus s as) (\<lambda>s. s)"
proof (induction as arbitrary: s)
  case Nil
  then show ?case
    by (simp add: inv_kept_def)
next
  case (Cons a as)
  show ?case
    unfolding run.simps
    by (rule inv_kept_bind1 [OF inv_step]) (use Cons in auto)
qed

lemma stable_slot: "v \<noteq> Null \<Longrightarrow> inv_stable bus {s. op s k = v}"
proof -
  assume v: "v \<noteq> Null"
  have "op s' k = v" if c: "checksupport bus s q = Inr (r, s')" and s: "op s k = v" for s q r s'
    using checksupport_cases [OF c]
  proof
    assume "s' = s"
    with s show ?thesis
      by simp
  next
    assume "\<not> no_query s \<and> q \<le> 0xff \<and> op s (ucast q) = Null \<and>
      (\<exists>j. j < length (ops s) \<and> cmd (ops s ! j) = q \<and> s' = query bus s j)"
    then obtain j where n: "op s (ucast q) = Null" and j: "cmd (ops s ! j) = q"
      and s': "s' = query bus s j"
      by blast
    from n s v have "k \<noteq> ucast (cmd (ops s ! j))"
      unfolding j by auto
    then show ?thesis
      unfolding s' using s by (simp add: query_other_slot)
  qed
  then show ?thesis
    by (auto simp: inv_stable_def keeps_def)
qed

lemma stable_no_query: "inv_stable bus {s. no_query s \<and> query_calls (trace s) = Q}"
  by (auto simp: inv_stable_def keeps_def checksupport_no_query)

lemma inv_show_p1:
  assumes "inv_stable bus I" "\<forall>s \<in> I. no_query s" "s \<in> I"
  shows "inv_kept I (pmbus_dev_show_p1 bus s) (\<lambda>s. s)"
  unfolding pmbus_dev_show_p1_def
proof (rule inv_kept_bind1 [OF inv_list_inventory [OF assms(1,3)]])
  fix s1
  assume s1: "s1 \<in> I"
  show "inv_kept I
    (fault_bind (checksupport bus s1 PMB_APP_PROFILES) (\<lambda>(mode, pmdev).
       let pmdev = (if mode = 1
                    then snd (snd (pmbus_read_block bus pmdev PMB_APP_PROFILES 513 (Some (\<lambda>k. 0))))
                    else pmdev)
       in if no_query pmdev then Inr pmdev
          else Inr (show_p1_query_all bus pmdev 0))) (\<lambda>s. s)"
  proof (rule inv_kept_bind2 [OF inv_checksupport [OF assms(1) s1]])
    fix mode :: int and s2
    assume s2: "s2 \<in> I"
    define s3 where "s3 = (if mode = 1
      then snd (snd (pmbus_read_block bus s2 PMB_APP_PROFILES 513 (Some (\<lambda>k. 0)))) else s2)"
    have "s3 \<in> I"
      using s2 assms(1) by (simp add: s3_def stable_read_block_snd)
    with assms(2) have "no_query s3"
      by blast
    with \<open>s3 \<in> I\<close> show "inv_kept I
      (let pmdev = (if mode = (1::int)
                    then snd (snd (pmbus_read_block bus s2 PMB_APP_PROFILES 513 (Some (\<lambda>k. 0))))
                    else s2)
       in if no_query pmdev then Inr pmdev
          else Inr (show_p1_query_all bus pmdev 0)) (\<lambda>s. s)"
      unfolding s3_def [symmetric] by (simp add: inv_kept_def)
  qed
qed

lemma inv_step_all:
  assumes "inv_stable bus I" "\<forall>s \<in> I. no_query s" "s \<in> I"
  shows "inv_kept I (step bus s a) (\<lambda>s. s)"
proof (cases "is_sweep a")
  case False
  with assms show ?thesis
    by (simp add: inv_step)
next
  case True
  then consider "a = ShowP1" | "a = Sweep" | vals cmds where "a = Show vals cmds"
    by (cases a) simp_all
  then show ?thesis
  proof cases
    case 1
    with inv_show_p1 [OF assms] show ?thesis
      by (simp add: step_def)
  next
    case 2
    with assms show ?thesis
      by (simp add: step_def inv_kept_def)
  next
    case 3
    have "inv_kept I (pmbus_dev_show bus s vals cmds) (\<lambda>s. s)"
      unfolding pmbus_dev_show_def
    proof (rule inv_kept_bind1 [OF inv_show_p1 [OF assms]])
      fix s1
      assume s1: "s1 \<in> I"
      have v: "inv_kept I (map_sum id snd (pmbus_dev_show_values bus t)) (\<lambda>s. s)"
        if "t \<in> I" for t
        using inv_show_values_from [OF assms(1) that, of 0]
        by (cases "pmbus_dev_show_values_from bus t 0")
          (auto simp: inv_kept_def pmbus_dev_show_values_def)
      show "inv_kept I
        (fault_bind (if vals
                 then fault_bind (pmbus_dev_show_status bus s1) (\<lambda>pmdev.
                        map_sum id snd (pmbus_dev_show_values bus pmdev))
                 else Inr s1) (\<lambda>pmdev.
           if cmds then map_sum id (\<lambda>lines. pmdev) (pmbus_dev_show_commands pmdev)
           else Inr pmdev)) (\<lambda>s. s)"
      proof (rule inv_kept_bind1)
        show "inv_kept I
          (if vals
           then fault_bind (pmbus_dev_show_status bus s1) (\<lambda>pmdev.
                  map_sum id snd (pmbus_dev_show_values bus pmdev))
           else Inr s1) (\<lambda>s. s)"
          using s1 assms(1)
          by (intro inv_kept_if inv_kept_bind1 inv_show_status inv_kept_Inr v)
      next
        fix s2
        assume "s2 \<in> I"
        then show "inv_kept I
          (if cmds then map_sum id (\<lambda>lines. s2) (pmbus_dev_show_commands s2) else Inr s2)
          (\<lambda>s. s)"
          by (cases "pmbus_dev_show_commands s2") (auto simp: inv_kept_def)
      qed
    qed
    with 3 show ?thesis
      by (simp add: step_def)
  qed
qed

lemma inv_run_all:
  "inv_stable bus I \<Longrightarrow> \<forall>s \<in> I. no_query s \<Longrightarrow> s \<in> I \<Longrightarrow> inv_kept I (run bus s as) (\<lambda>s. s)"
proof (induction as arbitrary: s)
  case Nil
  then show ?case
    by (simp add: inv_kept_def)
next
  case (Cons a as)
  show ?case
    unfolding run.simps
    by (rule inv_kept_bind1 [OF inv_step_all]) (use Cons in auto)
qed

lemma query_failed:
  assumes "cmd (ops s ! i) \<le> 0xff"
    and "case bus (trace s @ [SMBUS_PROC_CALL (ucast PMB_QUERY) (push_bit 8 (cmd (ops s ! i)) OR 1)]) of
           Failed e \<Rightarrow> True | Done d \<Rightarrow> reply_word d AND 0x00ff \<noteq> 1"
  shows "no_query (query bus s i)"
  using assms
  by (auto simp: query_def ioctl_def Let_def split: reply.splits)

section \<open>The answers of \<^verbatim>\<open>checksupport\<close>\<close>

text \<open>
  Claim C9 as stated (\<^verbatim>\<open>checksupport\<close> returns 1 whenever the slot of the command is
  not bound to the unsupported descriptor, for every 8-bit code that the table does
  not carry) fails when a guard of lines 995--999 ends the call before the slot is
  looked at. Command 6 is in no table entry. After the call for PAGE whose
  negotiation failed and set \<open>no_query\<close>, the call for command 6 returns \<open>-1\<close>, its slot
  being null; and so it does on a device that has reported QUERY as not supported.
\<close>

theorem checksupport_unbound_but_unknown:
  "checksupport bus_pec_only (pmbus_dev_init I2C_FUNC_I2C 0x10) 0x00 =
     Inr (1, (pmbus_dev_init I2C_FUNC_I2C 0x10)
       \<lparr>no_query := True, trace := [SMBUS_PROC_CALL 0x1a 0x0001]\<rparr>) \<and>
   op ((pmbus_dev_init I2C_FUNC_I2C 0x10)
       \<lparr>no_query := True, trace := [SMBUS_PROC_CALL 0x1a 0x0001]\<rparr>) 0x06 = Null \<and>
   catalog_index (ops ((pmbus_dev_init I2C_FUNC_I2C 0x10)
       \<lparr>no_query := True, trace := [SMBUS_PROC_CALL 0x1a 0x0001]\<rparr>)) 0x06 0 = None \<and>
   checksupport bus_pec_only ((pmbus_dev_init I2C_FUNC_I2C 0x10)
       \<lparr>no_query := True, trace := [SMBUS_PROC_CALL 0x1a 0x0001]\<rparr>) 0x06 =
     Inr (- 1, (pmbus_dev_init I2C_FUNC_I2C 0x10)
       \<lparr>no_query := True, trace := [SMBUS_PROC_CALL 0x1a 0x0001]\<rparr>) \<and>
   checksupport bus_unsupported (pmbus_dev_init I2C_FUNC_I2C 0x10) PMB_QUERY =
     Inr (0, (pmbus_dev_init I2C_FUNC_I2C 0x10)
       \<lparr>op := (\<lambda>k. Null)(0x1a := Unsupported), trace := [SMBUS_PROC_CALL 0x1a 0x1a01]\<rparr>) \<and>
   op ((pmbus_dev_init I2C_FUNC_I2C 0x10)
       \<lparr>op := (\<lambda>k. Null)(0x1a := Unsupported), trace := [SMBUS_PROC_CALL 0x1a 0x1a01]\<rparr>)
     0x06 = Null \<and>
   checksupport bus_unsupported ((pmbus_dev_init I2C_FUNC_I2C 0x10)
       \<lparr>op := (\<lambda>k. Null)(0x1a := Unsupported), trace := [SMBUS_PROC_CALL 0x1a 0x1a01]\<rparr>)
     0x06 =
     Inr (- 1, (pmbus_dev_init I2C_FUNC_I2C 0x10)
       \<lparr>op := (\<lambda>k. Null)(0x1a := Unsupported), trace := [SMBUS_PROC_CALL 0x1a 0x1a01]\<rparr>)"
proof -
  let ?failed = "(pmbus_dev_init I2C_FUNC_I2C 0x10)
    \<lparr>no_query := True, trace := [SMBUS_PROC_CALL 0x1a 0x0001]\<rparr>"
  let ?noq = "(pmbus_dev_init I2C_FUNC_I2C 0x10)
    \<lparr>op := (\<lambda>k. Null)(0x1a := Unsupported), trace := [SMBUS_PROC_CALL 0x1a 0x1a01]\<rparr>"
  have a: "op ?failed 0x06 = Null" "catalog_index (ops ?failed) 0x06 0 = None"
    by (simp_all add: pmbus_dev_init_def idx_absent)
  have b: "checksupport bus_pec_only ?failed 0x06 = Inr (- 1, ?failed)"
    by (simp add: checksupport_def is_pmb_extended_def)
  have p: "checksupport bus_unsupported (pmbus_dev_init I2C_FUNC_I2C 0x10) PMB_QUERY =
      Inr (0, ?noq)"
    by (simp add: session_eval bus_unsupported_def)
  have q: "op ?noq 0x06 = Null"
    by (simp add: pmbus_dev_init_def)
  have r: "checksupport bus_unsupported ?noq 0x06 = Inr (- 1, ?noq)"
    by (simp add: checksupport_def is_pmb_extended_def PMB_QUERY_def)
  from failed_page a b p q r show ?thesis
    by (intro conjI)
qed

text \<open>
  Claim C9, amended: a call of \<^verbatim>\<open>checksupport\<close> that passes its two guards (the
  command is an 8-bit code, the slot of QUERY is not the unsupported descriptor,
  \<open>no_query\<close> is clear) returns 1 unless the slot of the command is bound to the
  unsupported descriptor at the end. In particular it returns 1, and changes
  nothing, for a command that no table entry before the terminator carries; and it
  returns 1 on the call whose negotiation fails and sets \<open>no_query\<close>, the slot staying
  null.
\<close>

theorem checksupport_unbound_is_supported:
  assumes "\<not> is_pmb_extended k" "k \<le> 0xff" "op s (ucast PMB_QUERY) \<noteq> Unsupported"
    "\<not> no_query s"
  shows "\<exists>r s'. checksupport bus s k = Inr (r, s') \<and>
     r = (if op s' (ucast k) = Unsupported then 0 else 1) \<and>
     (op s (ucast k) = Null \<and> catalog_index (ops s) k 0 = None \<longrightarrow> r = 1 \<and> s' = s) \<and>
     (op s (ucast k) = Null \<and> no_query s' \<longrightarrow> r = 1 \<and> op s' (ucast k) = Null)"
proof -
  define s' where "s' = (if op s (ucast k) = Null then checksupport_loop bus s k 0 else s)"
  define r :: int where "r = (if op s' (ucast k) = Unsupported then 0 else 1)"
  have cs: "checksupport bus s k = Inr (r, s')"
    using assms by (simp add: checksupport_def Let_def s'_def r_def)
  have absent: "r = 1 \<and> s' = s" if "op s (ucast k) = Null" "catalog_index (ops s) k 0 = None"
    using that assms(4) by (simp add: r_def s'_def checksupport_loop_index)
  have failed: "r = 1 \<and> op s' (ucast k) = Null" if n: "op s (ucast k) = Null" and q: "no_query s'"
  proof -
    from checksupport_loop_cases [of bus s k 0] n
    consider "s' = s" | j where "s' = query bus s j"
      by (auto simp: s'_def)
    then have "op s' = op s"
    proof cases
      case 1
      then show ?thesis by simp
    next
      case 2
      with q assms(4) show ?thesis
        by (simp add: query_failed_slots)
    qed
    with n show ?thesis
      by (simp add: r_def)
  qed
  show ?thesis
  proof (intro exI conjI)
    show "checksupport bus s k = Inr (r, s')"
      by (rule cs)
    show "r = (if op s' (ucast k) = Unsupported then 0 else 1)"
      by (rule r_def)
    show "op s (ucast k) = Null \<and> catalog_index (ops s) k 0 = None \<longrightarrow> r = 1 \<and> s' = s"
      using absent by blast
    show "op s (ucast k) = Null \<and> no_query s' \<longrightarrow> r = 1 \<and> op s' (ucast k) = Null"
      using failed by blast
  qed
qed

theorem checksupport_unbound_is_supported_witness:
  "checksupport bus_supported (pmbus_dev_init I2C_FUNC_I2C 0x10) 0x06 =
     Inr (1, pmbus_dev_init I2C_FUNC_I2C 0x10) \<and>
   fst (projr (checksupport bus_pec_only (pmbus_dev_init I2C_FUNC_I2C 0x10) 0x00)) = 1 \<and>
   no_query (snd (projr (checksupport bus_pec_only (pmbus_dev_init I2C_FUNC_I2C 0x10) 0x00))) \<and>
   op (snd (projr (checksupport bus_pec_only (pmbus_dev_init I2C_FUNC_I2C 0x10) 0x00))) 0x00 = Null"
proof -
  let ?s = "pmbus_dev_init I2C_FUNC_I2C 0x10"
  have g: "\<not> is_pmb_extended 0x06" "(0x06 :: u16) \<le> 0xff" "op ?s (ucast PMB_QUERY) \<noteq> Unsupported"
    "\<not> no_query ?s" "\<not> is_pmb_extended 0x00" "(0x00 :: u16) \<le> 0xff"
    by (simp_all add: is_pmb_extended_def pmbus_dev_init_def)
  have n: "op ?s (ucast (0x06 :: u16)) = Null" "catalog_index (ops ?s) 0x06 0 = None"
    by (simp_all add: pmbus_dev_init_def idx_absent)
  from checksupport_unbound_is_supported [OF g(1-4), of bus_supported] n
  have a: "checksupport bus_supported ?s 0x06 = Inr (1, ?s)"
    by auto
  from checksupport_unbound_is_supported [OF g(5,6,3,4), of bus_pec_only]
  obtain r s' where cs: "checksupport bus_pec_only ?s 0x00 = Inr (r, s')"
    and f: "op ?s (ucast (0x00 :: u16)) = Null \<and> no_query s' \<longrightarrow>
      r = 1 \<and> op s' (ucast (0x00 :: u16)) = Null"
    by blast
  from cs have s': "s' = ?s\<lparr>no_query := True, trace := [SMBUS_PROC_CALL 0x1a 0x0001]\<rparr>"
    by (simp add: failed_page)
  have "op ?s (ucast (0x00 :: u16)) = Null \<and> no_query s'"
    by (simp add: s') (simp add: pmbus_dev_init_def)
  with f have "r = 1 \<and> op s' 0x00 = Null"
    by simp
  with cs s' have b: "fst (projr (checksupport bus_pec_only ?s 0x00)) = 1 \<and>
    no_query (snd (projr (checksupport bus_pec_only ?s 0x00))) \<and>
    op (snd (projr (checksupport bus_pec_only ?s 0x00))) 0x00 = Null"
    by simp
  from a b show ?thesis
    by blast
qed

text \<open>
  Claim C1: when the QUERY exchange of \<^verbatim>\<open>query\<close> fails, or the low byte of its
  response is not 1, \<open>no_query\<close> is set; and after any sequence of session operations
  from there, \<open>no_query\<close> is still set, no further QUERY process call has been issued,
  and \<^verbatim>\<open>checksupport\<close> returns \<open>-1\<close> for every command code, leaving the state (the
  trace of requests included) as it is.
\<close>

theorem no_query_is_sticky:
  assumes "cmd (ops s0 ! i) \<le> 0xff"
    and "case bus (trace s0 @
                [SMBUS_PROC_CALL (ucast PMB_QUERY) (push_bit 8 (cmd (ops s0 ! i)) OR 1)]) of
           Failed e \<Rightarrow> True | Done d \<Rightarrow> reply_word d AND 0x00ff \<noteq> 1"
    and "run bus (query bus s0 i) as = Inr s"
  shows "no_query (query bus s0 i) \<and> no_query s \<and>
    query_calls (trace s) = query_calls (trace (query bus s0 i)) \<and>
    checksupport bus s k = Inr (- 1, s)"
proof -
  let ?q = "query bus s0 i"
  let ?I = "{s. no_query s \<and> query_calls (trace s) = query_calls (trace ?q)}"
  have q: "no_query ?q"
    using assms(1,2) by (rule query_failed)
  then have "?q \<in> ?I"
    by simp
  then have "inv_kept ?I (run bus ?q as) (\<lambda>s. s)"
    by (intro inv_run_all stable_no_query) auto
  with assms(3) have "s \<in> ?I"
    by (simp add: inv_kept_def)
  with q show ?thesis
    by (simp add: checksupport_no_query)
qed

theorem no_query_is_sticky_witness:
  "cmd (ops (pmbus_dev_init I2C_FUNC_I2C 0x10) ! 0) \<le> 0xff \<and>
   (case bus_pec_only (trace (pmbus_dev_init I2C_FUNC_I2C 0x10) @
       [SMBUS_PROC_CALL (ucast PMB_QUERY)
          (push_bit 8 (cmd (ops (pmbus_dev_init I2C_FUNC_I2C 0x10) ! 0)) OR 1)]) of
      Failed e \<Rightarrow> True | Done d \<Rightarrow> reply_word d AND 0x00ff \<noteq> 1) \<and>
   run bus_pec_only (query bus_pec_only (pmbus_dev_init I2C_FUNC_I2C 0x10) 0)
     [CheckSupport 0x21, Sweep, StatusByte 0x7a] =
     Inr ((pmbus_dev_init I2C_FUNC_I2C 0x10)
       \<lparr>no_query := True,
        trace := [SMBUS_PROC_CALL 0x1a 0x0001, SMBUS_READ_BYTE_DATA 0x7a]\<rparr>) \<and>
   checksupport bus_pec_only ((pmbus_dev_init I2C_FUNC_I2C 0x10)
       \<lparr>no_query := True,
        trace := [SMBUS_PROC_CALL 0x1a 0x0001, SMBUS_READ_BYTE_DATA 0x7a]\<rparr>) 0x21 =
     Inr (- 1, (pmbus_dev_init I2C_FUNC_I2C 0x10)
       \<lparr>no_query := True,
        trace := [SMBUS_PROC_CALL 0x1a 0x0001, SMBUS_READ_BYTE_DATA 0x7a]\<rparr>)"
proof -
  let ?init = "pmbus_dev_init I2C_FUNC_I2C 0x10"
  let ?fin = "?init\<lparr>no_query := True,
    trace := [SMBUS_PROC_CALL 0x1a 0x0001, SMBUS_READ_BYTE_DATA 0x7a]\<rparr>"
  have h1: "cmd (ops ?init ! 0) \<le> 0xff"
    by (simp add: pmbus_dev_init_def nth_pmbus_ops desc_def)
  have h2: "case bus_pec_only (trace ?init @
      [SMBUS_PROC_CALL (ucast PMB_QUERY) (push_bit 8 (cmd (ops ?init ! 0)) OR 1)]) of
      Failed e \<Rightarrow> True | Done d \<Rightarrow> reply_word d AND 0x00ff \<noteq> 1"
    by (simp add: bus_pec_only_def)
  have q: "query bus_pec_only ?init 0 =
      ?init\<lparr>no_query := True, trace := [SMBUS_PROC_CALL 0x1a 0x0001]\<rparr>"
    by (simp add: pmbus_dev_init_def query_def nth_pmbus_ops desc_def ioctl_def
        bus_pec_only_def PMB_QUERY_def Let_def)
  have h3: "run bus_pec_only (query bus_pec_only ?init 0)
      [CheckSupport 0x21, Sweep, StatusByte 0x7a] = Inr ?fin"
    unfolding q
    by (simp add: step_def fault_bind_def checksupport_no_query status_byte_def
        pmbus_read_byte_data_def is_pmb_extended_def is_pmb_8bit_def ioctl_def
        bus_pec_only_def pmbus_dev_init_def)
  from no_query_is_sticky [OF h1 h2 h3, of "0x21"] h1 h2 h3 show ?thesis
    by blast
qed

text \<open>
  Claim C3 as stated (once \<^verbatim>\<open>checksupport\<close> has returned 0 for a command, every
  later call for it returns 0) fails for the QUERY command itself: on a device whose
  QUERY reports QUERY as not supported, the first call returns 0 and binds the slot of
  QUERY to the unsupported descriptor, and the second call, in the state the first one
  left, returns \<open>-1\<close> at the guard of line 998.
\<close>

theorem unsupported_query_then_unknown:
  "checksupport bus_unsupported (pmbus_dev_init I2C_FUNC_I2C 0x10) PMB_QUERY =
     Inr (0, (pmbus_dev_init I2C_FUNC_I2C 0x10)
       \<lparr>op := (\<lambda>k. Null)(0x1a := Unsupported), trace := [SMBUS_PROC_CALL 0x1a 0x1a01]\<rparr>) \<and>
   checksupport bus_unsupported ((pmbus_dev_init I2C_FUNC_I2C 0x10)
       \<lparr>op := (\<lambda>k. Null)(0x1a := Unsupported), trace := [SMBUS_PROC_CALL 0x1a 0x1a01]\<rparr>)
     PMB_QUERY =
     Inr (- 1, (pmbus_dev_init I2C_FUNC_I2C 0x10)
       \<lparr>op := (\<lambda>k. Null)(0x1a := Unsupported), trace := [SMBUS_PROC_CALL 0x1a 0x1a01]\<rparr>)"
proof -
  have a: "checksupport bus_unsupported (pmbus_dev_init I2C_FUNC_I2C 0x10) PMB_QUERY =
     Inr (0, (pmbus_dev_init I2C_FUNC_I2C 0x10)
       \<lparr>op := (\<lambda>k. Null)(0x1a := Unsupported), trace := [SMBUS_PROC_CALL 0x1a 0x1a01]\<rparr>)"
    by (simp add: session_eval bus_unsupported_def)
  have b: "checksupport bus_unsupported ((pmbus_dev_init I2C_FUNC_I2C 0x10)
       \<lparr>op := (\<lambda>k. Null)(0x1a := Unsupported), trace := [SMBUS_PROC_CALL 0x1a 0x1a01]\<rparr>)
     PMB_QUERY =
     Inr (- 1, (pmbus_dev_init I2C_FUNC_I2C 0x10)
       \<lparr>op := (\<lambda>k. Null)(0x1a := Unsupported), trace := [SMBUS_PROC_CALL 0x1a 0x1a01]\<rparr>)"
    by (simp add: checksupport_def is_pmb_extended_def PMB_QUERY_def)
  from a b show ?thesis
    by (rule conjI)
qed

text \<open>
  Claim C3, amended: once \<^verbatim>\<open>checksupport\<close> has returned 0 for a command, then after
  any sequence of session operations that does not query the whole table, a further
  call for that command issues no request and changes nothing; it returns 0, unless
  the slot of QUERY is bound to the unsupported descriptor or \<open>no_query\<close> is set, in
  which case it returns \<open>-1\<close>.
\<close>

theorem unsupported_stays_unsupported:
  assumes "checksupport bus s0 k = Inr (0, s1)" "\<forall>a \<in> set as. \<not> is_sweep a"
    and "run bus s1 as = Inr s"
  shows "checksupport bus s k =
    Inr (if op s (ucast PMB_QUERY) = Unsupported \<or> no_query s then - 1 else 0, s)"
proof -
  from assms(1) have k: "\<not> is_pmb_extended k" "k \<le> 0xff" "op s1 (ucast k) = Unsupported"
    by (auto simp: checksupport_def Let_def split: if_splits)
  have "inv_kept {s. op s (ucast k) = Unsupported} (run bus s1 as) (\<lambda>s. s)"
    using k(3) assms(2) by (intro inv_run stable_slot) auto
  with assms(3) have "op s (ucast k) = Unsupported"
    by (simp add: inv_kept_def)
  moreover from k(2) have "\<not> 0xff < k"
    by (rule leD)
  ultimately show ?thesis
    using k(1) by (simp add: checksupport_def Let_def)
qed

lemma page_unsupported:
  "checksupport bus_unsupported (pmbus_dev_init I2C_FUNC_I2C 0x10) 0x00 =
     Inr (0, (pmbus_dev_init I2C_FUNC_I2C 0x10)
       \<lparr>op := (\<lambda>k. Null)(0x00 := Unsupported), trace := [SMBUS_PROC_CALL 0x1a 0x0001]\<rparr>)"
  by (simp add: session_eval bus_unsupported_def)

lemma after_page_unsupported:
  "run bus_unsupported ((pmbus_dev_init I2C_FUNC_I2C 0x10)
       \<lparr>op := (\<lambda>k. Null)(0x00 := Unsupported), trace := [SMBUS_PROC_CALL 0x1a 0x0001]\<rparr>)
     [CheckSupport 0x01, ReadBlock 0x99 8] =
   Inr ((pmbus_dev_init I2C_FUNC_I2C 0x10)
       \<lparr>op := (\<lambda>k. Null)(0x00 := Unsupported, 0x01 := Unsupported),
        trace := [SMBUS_PROC_CALL 0x1a 0x0001, SMBUS_PROC_CALL 0x1a 0x0101,
                  SMBUS_READ_BYTE_DATA 0x99, I2C_RDWR [0x99] 2]\<rparr>)"
  by (simp add: session_eval bus_unsupported_def pmbus_read_block_def pmbus_read_byte_data_def
      is_pmb_8bit_def I2C_SMBUS_BLOCK_MAX_def I2C_FUNC_SMBUS_READ_BLOCK_DATA_def
      I2C_FUNC_I2C_def read_block_try_i2c_def fun_upd_twist)

theorem unsupported_stays_unsupported_witness:
  "checksupport bus_unsupported (pmbus_dev_init I2C_FUNC_I2C 0x10) 0x00 =
     Inr (0, (pmbus_dev_init I2C_FUNC_I2C 0x10)
       \<lparr>op := (\<lambda>k. Null)(0x00 := Unsupported), trace := [SMBUS_PROC_CALL 0x1a 0x0001]\<rparr>) \<and>
   list_all (\<lambda>a. \<not> is_sweep a) [CheckSupport 0x01, ReadBlock 0x99 8] \<and>
   checksupport bus_unsupported
     (projr (run bus_unsupported ((pmbus_dev_init I2C_FUNC_I2C 0x10)
       \<lparr>op := (\<lambda>k. Null)(0x00 := Unsupported), trace := [SMBUS_PROC_CALL 0x1a 0x0001]\<rparr>)
       [CheckSupport 0x01, ReadBlock 0x99 8])) 0x00 =
     Inr (0, projr (run bus_unsupported ((pmbus_dev_init I2C_FUNC_I2C 0x10)
       \<lparr>op := (\<lambda>k. Null)(0x00 := Unsupported), trace := [SMBUS_PROC_CALL 0x1a 0x0001]\<rparr>)
       [CheckSupport 0x01, ReadBlock 0x99 8]))"
proof -
  let ?bound = "(pmbus_dev_init I2C_FUNC_I2C 0x10)
    \<lparr>op := (\<lambda>k. Null)(0x00 := Unsupported), trace := [SMBUS_PROC_CALL 0x1a 0x0001]\<rparr>"
  let ?fin = "(pmbus_dev_init I2C_FUNC_I2C 0x10)
    \<lparr>op := (\<lambda>k. Null)(0x00 := Unsupported, 0x01 := Unsupported),
     trace := [SMBUS_PROC_CALL 0x1a 0x0001, SMBUS_PROC_CALL 0x1a 0x0101,
               SMBUS_READ_BYTE_DATA 0x99, I2C_RDWR [0x99] 2]\<rparr>"
  have n: "\<forall>a \<in> set [CheckSupport 0x01, ReadBlock 0x99 8]. \<not> is_sweep a"
    by simp
  have g: "\<not> (op ?fin (ucast PMB_QUERY) = Unsupported \<or> no_query ?fin)"
    by (simp add: pmbus_dev_init_def PMB_QUERY_def)
  from unsupported_stays_unsupported [OF page_unsupported n after_page_unsupported] g
  have "checksupport bus_unsupported ?fin 0x00 = Inr (0, ?fin)"
    by simp
  then show ?thesis
    by (simp add: page_unsupported after_page_unsupported del: run.simps)
qed

text \<open>
  Claim C4 as stated (a slot that has left the null state is never rebound, in any
  sequence of session operations) fails when \<^verbatim>\<open>pmbus_dev_show_p1\<close> runs after a slot
  was bound: its last loop calls \<^verbatim>\<open>query\<close> on every table entry, bound or not. On a
  device that reports PAGE as not supported at first and as supported later, the slot
  of PAGE goes from the unsupported descriptor to the table entry. On a device whose
  answers never change, the slot of command 5 goes from table entry 5 to table entry
  6, the second entry that carries the command code 5.
\<close>

theorem show_p1_rebinds_slot:
  "op (projr (run bus_paged (pmbus_dev_init I2C_FUNC_I2C 0x10) [CheckSupport 0x00])) 0x00 =
     Unsupported \<and>
   op (projr (run bus_paged (pmbus_dev_init I2C_FUNC_I2C 0x10) [CheckSupport 0x00, ShowP1])) 0x00 =
     PmbusOps 0 \<and>
   op (projr (run bus_low (pmbus_dev_init I2C_FUNC_I2C 0x10) [CheckSupport 0x05])) 0x05 =
     PmbusOps 5 \<and>
   op (projr (run bus_low (pmbus_dev_init I2C_FUNC_I2C 0x10) [CheckSupport 0x05, ShowP1])) 0x05 =
     PmbusOps 6"
proof -
  have "op (projr (run bus_paged (pmbus_dev_init I2C_FUNC_I2C 0x10) [CheckSupport 0x00])) 0x00 =
      Unsupported"
    by (simp add: session_eval bus_paged_def)
  moreover have "op (projr (run bus_paged (pmbus_dev_init I2C_FUNC_I2C 0x10)
      [CheckSupport 0x00, ShowP1])) 0x00 = PmbusOps 0"
    by (simp add: session_eval bus_paged_def)
  moreover have "op (projr (run bus_low (pmbus_dev_init I2C_FUNC_I2C 0x10)
      [CheckSupport 0x05])) 0x05 = PmbusOps 5"
    by (simp add: session_eval bus_low_def)
  moreover have "op (projr (run bus_low (pmbus_dev_init I2C_FUNC_I2C 0x10)
      [CheckSupport 0x05, ShowP1])) 0x05 = PmbusOps 6"
    by (simp add: session_eval bus_low_def)
  ultimately show ?thesis
    by blast
qed

text \<open>
  Claim C4, amended: a slot that is not null keeps its binding through every sequence
  of session operations that does not query the whole table.
\<close>

theorem bound_slot_is_kept:
  assumes "op s k \<noteq> Null" "\<forall>a \<in> set as. \<not> is_sweep a" "run bus s as = Inr s'"
  shows "op s' k = op s k"
proof -
  have "inv_kept {t. op t k = op s k} (run bus s as) (\<lambda>s. s)"
    using assms(1,2) by (intro inv_run stable_slot) auto
  with assms(3) show ?thesis
    by (simp add: inv_kept_def)
qed

theorem bound_slot_is_kept_witness:
  "op ((pmbus_dev_init I2C_FUNC_I2C 0x10)
       \<lparr>op := (\<lambda>k. Null)(0x00 := Unsupported), trace := [SMBUS_PROC_CALL 0x1a 0x0001]\<rparr>) 0x00 \<noteq>
     Null \<and>
   list_all (\<lambda>a. \<not> is_sweep a) [CheckSupport 0x01, ReadBlock 0x99 8] \<and>
   op (projr (run bus_unsupported ((pmbus_dev_init I2C_FUNC_I2C 0x10)
       \<lparr>op := (\<lambda>k. Null)(0x00 := Unsupported), trace := [SMBUS_PROC_CALL 0x1a 0x0001]\<rparr>)
       [CheckSupport 0x01, ReadBlock 0x99 8])) 0x00 = Unsupported"
proof -
  let ?bound = "(pmbus_dev_init I2C_FUNC_I2C 0x10)
    \<lparr>op := (\<lambda>k. Null)(0x00 := Unsupported), trace := [SMBUS_PROC_CALL 0x1a 0x0001]\<rparr>"
  have b: "op ?bound 0x00 \<noteq> Null"
    by (simp add: pmbus_dev_init_def)
  have n: "\<forall>a \<in> set [CheckSupport 0x01, ReadBlock 0x99 8]. \<not> is_sweep a"
    by simp
  from bound_slot_is_kept [OF b n after_page_unsupported]
  have "op (projr (run bus_unsupported ?bound [CheckSupport 0x01, ReadBlock 0x99 8])) 0x00 =
      op ?bound 0x00"
    by (simp add: after_page_unsupported del: run.simps)
  then show ?thesis
    using b by (simp add: pmbus_dev_init_def del: run.simps)
qed

section \<open>The VOUT\_MODE descriptor\<close>

text \<open>
  A session that binds VOUT\_MAX and lists the commands before anything has bound
  VOUT\_MODE stops at the null slot.
\<close>

lemma vout_max_then_show_commands:
  "run bus_supported (pmbus_dev_init I2C_FUNC_I2C 0x10) [CheckSupport 0x24, ShowCommands] =
     Inl NullDeref"
proof -
  have "pmbus_dev_show_commands
      (snd (projr (checksupport bus_supported (pmbus_dev_init I2C_FUNC_I2C 0x10) 0x24))) =
      Inl NullDeref"
    by (simp add: probed_vout_max pmbus_dev_show_commands_def
        pmbus_dev_show_commands_from.simps show_commands_entry_def fault_bind_def
        show_commands_format_def show_commands_word_format_def length_pmbus_ops desc_def
        vout_mode_is_linear_def PMB_VOUT_MODE_def)
  then show ?thesis
    by (simp add: step_def probed_vout_max fault_bind_def)
qed

text \<open>
  Claim C10: \<^verbatim>\<open>vout_mode_is_linear\<close> returns a value exactly when the slot of
  VOUT\_MODE is not null. When that slot is null and slot \<open>i\<close> is bound to a word
  command whose flags are \<^verbatim>\<open>FLG_FORMAT_VOUT\<close>, the round of
  \<^verbatim>\<open>pmbus_dev_show_commands\<close> for slot \<open>i\<close> reads through the null pointer, and so does
  the round of \<^verbatim>\<open>pmbus_dev_show_values\<close> once the word has been read.
\<close>

theorem vout_mode_null_access:
  "((\<exists>v. vout_mode_is_linear s = Inr v) \<longleftrightarrow> op s (ucast PMB_VOUT_MODE) \<noteq> Null) \<and>
   (op s (ucast PMB_VOUT_MODE) = Null \<and> op s (of_nat i) = PmbusOps j \<and>
    (type (ops s ! j) = RW2 \<or> type (ops s ! j) = R2) \<and> flags (ops s ! j) = FLG_FORMAT_VOUT \<longrightarrow>
      show_commands_entry s i = Inl NullDeref \<and>
      (\<forall>v. fst (pmbus_read_word_data bus s (cmd (ops s ! j))) = Inr v \<longrightarrow>
         show_values_entry bus s i = Inl NullDeref))"
proof -
  have a: "(\<exists>v. vout_mode_is_linear s = Inr v) \<longleftrightarrow> op s (ucast PMB_VOUT_MODE) \<noteq> Null"
    by (auto simp: vout_mode_is_linear_def split: desc_ptr.splits)
  have b: "show_commands_entry s i = Inl NullDeref"
    if "op s (ucast PMB_VOUT_MODE) = Null" "op s (of_nat i) = PmbusOps j"
      "type (ops s ! j) = RW2 \<or> type (ops s ! j) = R2" "flags (ops s ! j) = FLG_FORMAT_VOUT"
    using that
    by (auto simp: show_commands_entry_def show_commands_format_def
        show_commands_word_format_def vout_mode_is_linear_def fault_bind_def Let_def)
  have c: "show_values_entry bus s i = Inl NullDeref"
    if n: "op s (ucast PMB_VOUT_MODE) = Null" and b: "op s (of_nat i) = PmbusOps j"
      and t: "type (ops s ! j) = RW2 \<or> type (ops s ! j) = R2"
      and f: "flags (ops s ! j) = FLG_FORMAT_VOUT"
      and r: "fst (pmbus_read_word_data bus s (cmd (ops s ! j))) = Inr v" for v
  proof -
    obtain s1 where rd: "pmbus_read_word_data bus s (cmd (ops s ! j)) = (Inr v, s1)"
      using r by (cases "pmbus_read_word_data bus s (cmd (ops s ! j))") simp
    have k: "op s1 = op s"
      using read_word_keeps [OF rd] by (simp add: keeps_def)
    have v: "vout_mode_is_linear s1 = Inl NullDeref"
      using n k by (simp add: vout_mode_is_linear_def)
    have w: "show_values_word s1 (ops s ! j) (uint v) = Inl NullDeref"
      using f v by (simp add: show_values_word_def fault_bind_def)
    have fl: "flags (ops s ! j) AND (FLG_SHOW_P1 OR FLG_STATUS) = 0"
      using f by (simp add: FLG_FORMAT_VOUT_def FLG_SHOW_P1_def FLG_STATUS_def)
    from t show ?thesis
      using b fl rd w by (auto simp: show_values_entry_def Let_def fault_bind_def)
  qed
  from a b c show ?thesis
    by blast
qed

theorem vout_mode_null_access_witness:
  "op (snd (projr (checksupport bus_supported (pmbus_dev_init I2C_FUNC_I2C 0x10) 0x24)))
     (ucast PMB_VOUT_MODE) = Null \<and>
   show_commands_entry
     (snd (projr (checksupport bus_supported (pmbus_dev_init I2C_FUNC_I2C 0x10) 0x24))) 0x24 =
     Inl NullDeref \<and>
   show_values_entry bus_supported
     (snd (projr (checksupport bus_supported (pmbus_dev_init I2C_FUNC_I2C 0x10) 0x24))) 0x24 =
     Inl NullDeref"
proof -
  let ?s = "snd (projr (checksupport bus_supported (pmbus_dev_init I2C_FUNC_I2C 0x10) 0x24))"
  have n: "op ?s (ucast PMB_VOUT_MODE) = Null"
    by (simp add: probed_vout_max PMB_VOUT_MODE_def)
  have b: "op ?s (of_nat 0x24) = PmbusOps 23"
    by (simp add: probed_vout_max)
  have t: "type (ops ?s ! 23) = RW2 \<or> type (ops ?s ! 23) = R2"
    by (simp add: probed_vout_max length_pmbus_ops desc_def)
  have f: "flags (ops ?s ! 23) = FLG_FORMAT_VOUT"
    by (simp add: probed_vout_max length_pmbus_ops desc_def)
  have r: "fst (pmbus_read_word_data bus_supported ?s (cmd (ops ?s ! 23))) = Inr 0x8001"
    by (simp add: probed_vout_max length_pmbus_ops desc_def pmbus_read_word_data_def
        is_pmb_extended_def is_pmb_8bit_def ioctl_def bus_supported_def reply_word_def)
  from vout_mode_null_access [of ?s "0x24" 23 bus_supported] n b t f r show ?thesis
    by simp
qed

end
